theory Spec2Isabelle
  imports Complex_Main "HOL-Library.Multiset"
begin

section \<open>Data model\<close>

text \<open>
  The records follow \<^verbatim>\<open>src/lib/agent/types.ts\<close> and the tables of
  \<^verbatim>\<open>src/lib/db/schema.ts\<close>. An optional field (\<^verbatim>\<open>x?: T\<close>, a nullable
  column) is an \<open>option\<close>. Field names carry a prefix because record selectors are
  global constants in HOL: \<open>t_\<close> for a task, \<open>p_\<close> for a plan, \<open>m_\<close> for a mission,
  \<open>u_\<close> for a tool usage row. Free-form JSON (\<^verbatim>\<open>Record<string, any>\<close>) is the
  datatype \<open>json\<close>. Timestamps are milliseconds read from the clock of the store.
  Fields that the agent core neither reads nor writes after a row is inserted (the parent
  task and sub tasks, descriptions, estimated and actual durations, metadata, creation
  times) are left out.
\<close>

datatype json =
    JNull
  | JBool bool
  | JNum int
  | JStr string
  | JArr "json list"
  | JObj "(string \<times> json) list"

datatype task_status = TaskPending | TaskInProgress | TaskCompleted | TaskFailed | TaskSkipped

datatype plan_status = PlanDraft | PlanActive | PlanCompleted | PlanFailed | PlanSuperseded

datatype mission_status =
  MissionPending | MissionPlanning | MissionExecuting | MissionCompleted | MissionFailed

datatype mission_priority = Low | Medium | High | Urgent

text \<open>A thrown JavaScript \<^verbatim>\<open>Error\<close>, with its \<^verbatim>\<open>message\<close>.\<close>

datatype error = Error (message: string)

record task =
  t_id :: string
  t_planId :: string
  t_title :: string
  t_status :: task_status
  t_priority :: int
  t_toolName :: "string option"
  t_toolParams :: "json option"
  t_dependencies :: "string list option"
  t_startedAt :: "nat option"
  t_completedAt :: "nat option"
  t_result :: "json option"

section \<open>Task Graph Sorter\<close>

text \<open>
  \<^verbatim>\<open>sortTasksByPriorityAndDependencies\<close> keeps three mutable locals: the output array
  \<^verbatim>\<open>sorted\<close> and the sets \<^verbatim>\<open>visited\<close> and \<^verbatim>\<open>visiting\<close>. The closure
  \<^verbatim>\<open>visit\<close> reads and writes them; here they are threaded through as a record
  (the field for \<^verbatim>\<open>sorted\<close> is \<open>sorted'\<close>, since \<^const>\<open>sorted\<close> is taken).
  A \<^verbatim>\<open>throw\<close> is the \<open>Inl\<close> branch and leaves the whole sort, so no state is
  returned with it.
\<close>

record sort_state =
  sorted' :: "task list"
  visited :: "string set"
  visiting :: "string set"

definition deps_of :: "task \<Rightarrow> string list" where
  "deps_of task = (case t_dependencies task of None \<Rightarrow> [] | Some ds \<Rightarrow> ds)"

definition circular_error :: "task \<Rightarrow> error" where
  "circular_error task =
     Error (''Circular dependency detected involving task: '' @ t_title task)"

function visit :: "task list \<Rightarrow> task \<Rightarrow> sort_state \<Rightarrow> error + sort_state"
  and visit_deps :: "task list \<Rightarrow> string list \<Rightarrow> sort_state \<Rightarrow> error + sort_state"
where
  "visit tasks task st =
     (if t_id task \<in> visiting st then Inl (circular_error task)
      else if t_id task \<in> visited st then Inr st
      else
        (case visit_deps tasks (deps_of task)
                (st\<lparr>visiting := insert (t_id task) (visiting st)\<rparr>) of
           Inl e \<Rightarrow> Inl e
         | Inr st' \<Rightarrow>
             Inr (st'\<lparr>visiting := visiting st' - {t_id task},
                      visited := insert (t_id task) (visited st'),
                      sorted' := sorted' st' @ [task]\<rparr>)))"
| "visit_deps tasks [] st = Inr st"
| "visit_deps tasks (depId # rest) st =
     (case find (\<lambda>t. t_id t = depId) tasks of
        None \<Rightarrow> visit_deps tasks rest st
      | Some depTask \<Rightarrow>
          (case visit tasks depTask st of
             Inl e \<Rightarrow> Inl e
           | Inr st' \<Rightarrow> visit_deps tasks rest st'))"
  by pat_completeness auto

lemma visiting_restored_dom:
  "visit_visit_deps_dom (Inl (tasks, task, st)) \<Longrightarrow>
     visit tasks task st = Inr st' \<Longrightarrow> visiting st' = visiting st"
  "visit_visit_deps_dom (Inr (tasks, ds, st)) \<Longrightarrow>
     visit_deps tasks ds st = Inr st'' \<Longrightarrow> visiting st'' = visiting st"
proof (induction tasks task st and tasks ds st arbitrary: st' and st''
    rule: visit_visit_deps.pinduct)
  case (1 tasks task st)
  show ?case
  proof (cases "t_id task \<in> visiting st")
    case True
    with 1(1) 1(3) show ?thesis by (simp add: visit.psimps)
  next
    case nv: False
    show ?thesis
    proof (cases "t_id task \<in> visited st")
      case True
      with nv 1(1) 1(3) show ?thesis by (simp add: visit.psimps)
    next
      case False
      let ?st1 = "st\<lparr>visiting := insert (t_id task) (visiting st)\<rparr>"
      from nv False 1(1) 1(3) obtain st2 where
        r: "visit_deps tasks (deps_of task) ?st1 = Inr st2" and
        e: "st' = st2\<lparr>visiting := visiting st2 - {t_id task},
                      visited := insert (t_id task) (visited st2),
                      sorted' := sorted' st2 @ [task]\<rparr>"
        by (simp add: visit.psimps split: sum.splits)
      from 1(2)[OF nv False r] have "visiting st2 = insert (t_id task) (visiting st)" by simp
      with e nv show ?thesis by simp
    qed
  qed
next
  case (2 tasks st)
  then show ?case by (simp add: visit_deps.psimps)
next
  case (3 tasks depId rest st)
  show ?case
  proof (cases "find (\<lambda>t. t_id t = depId) tasks")
    case None
    with 3(1) 3(5) have "visit_deps tasks rest st = Inr st''" by (simp add: visit_deps.psimps)
    from 3(2)[OF None this] show ?thesis .
  next
    case (Some depTask)
    with 3(1) 3(5) obtain st1 where
      a: "visit tasks depTask st = Inr st1" and b: "visit_deps tasks rest st1 = Inr st''"
      by (simp add: visit_deps.psimps split: sum.splits)
    from 3(3)[OF Some a] have "visiting st1 = visiting st" .
    moreover from 3(4)[OF Some a b] have "visiting st'' = visiting st1" .
    ultimately show ?thesis by simp
  qed
qed

termination visit
proof (relation "inv_image (less_than <*lex*> less_than)
    (\<lambda>x. case x of
        Inl (tasks, task, st) \<Rightarrow>
          (card (insert (t_id task) (t_id ` set tasks) - visiting st), 0::nat)
      | Inr (tasks, ds, st) \<Rightarrow>
          (card (t_id ` set tasks - visiting st), Suc (length ds)))", goal_cases)
  case 1
  show ?case by auto
next
  case (2 tasks task st)
  have "t_id ` set tasks - insert (t_id task) (visiting st)
        \<subset> insert (t_id task) (t_id ` set tasks) - visiting st"
    using 2 by auto
  then have "card (t_id ` set tasks - insert (t_id task) (visiting st))
        < card (insert (t_id task) (t_id ` set tasks) - visiting st)"
    by (intro psubset_card_mono) auto
  then show ?case by simp
next
  case (3 tasks depId rest st)
  then show ?case by simp
next
  case (4 tasks depId rest st depTask)
  then have "depTask \<in> set tasks" by (auto simp: find_Some_iff)
  then have "insert (t_id depTask) (t_id ` set tasks) = t_id ` set tasks" by auto
  then show ?case by simp
next
  case (5 tasks depId rest st depTask st')
  then have "visiting st' = visiting st" by (simp add: visiting_restored_dom(1))
  then show ?case by simp
qed


declare visit.simps [simp del]

text \<open>
  The body of \<^verbatim>\<open>sortTasksByPriorityAndDependencies\<close>: the tasks are copied and
  sorted by ascending \<^verbatim>\<open>priority\<close> (\<^verbatim>\<open>Array.prototype.sort\<close> is stable, as is
  \<^const>\<open>sort_key\<close>), then visited in that order. The first error leaves the loop.
\<close>

fun visit_all :: "task list \<Rightarrow> task list \<Rightarrow> sort_state \<Rightarrow> error + sort_state" where
  "visit_all tasks [] st = Inr st"
| "visit_all tasks (task # rest) st =
     (case visit tasks task st of
        Inl e \<Rightarrow> Inl e
      | Inr st' \<Rightarrow> visit_all tasks rest st')"

definition sortTasksByPriorityAndDependencies :: "task list \<Rightarrow> error + task list" where
  "sortTasksByPriorityAndDependencies tasks =
     (let prioritySorted = sort_key t_priority tasks in
      case visit_all tasks prioritySorted \<lparr>sorted' = [], visited = {}, visiting = {}\<rparr> of
        Inl e \<Rightarrow> Inl e
      | Inr st \<Rightarrow> Inr (sorted' st))"

subsection \<open>The dependency graph\<close>

text \<open>
  An edge \<open>(t, d)\<close> says that the task with id \<open>t\<close> lists \<open>d\<close> among its
  dependencies. A plan is cyclic when this relation is not \<^const>\<open>acyclic\<close>.
\<close>

definition dep_edges :: "task list \<Rightarrow> (string \<times> string) list" where
  "dep_edges tasks = concat (map (\<lambda>t. map (\<lambda>d. (t_id t, d)) (deps_of t)) tasks)"

definition dep_graph :: "task list \<Rightarrow> (string \<times> string) set" where
  "dep_graph tasks = set (dep_edges tasks)"

definition deps_closed :: "task list \<Rightarrow> bool" where
  "deps_closed tasks = list_all (\<lambda>t. list_all (\<lambda>d. d \<in> t_id ` set tasks) (deps_of t)) tasks"


subsection \<open>Invariants of the traversal\<close>

lemma in_dep_graph:
  "(a, b) \<in> dep_graph tasks \<longleftrightarrow> (\<exists>t \<in> set tasks. a = t_id t \<and> b \<in> set (deps_of t))"
  by (auto simp: dep_graph_def dep_edges_def)

lemma find_id_Some:
  "find (\<lambda>t. t_id t = d) tasks = Some t \<Longrightarrow> t \<in> set tasks \<and> t_id t = d"
  by (auto simp: find_Some_iff)

lemma find_id_None:
  "find (\<lambda>t. t_id t = d) tasks = None \<longleftrightarrow> d \<notin> t_id ` set tasks"
  by (auto simp: find_None_iff)

lemma visiting_restored:
  "visit tasks task st = Inr st' \<Longrightarrow> visiting st' = visiting st"
  "visit_deps tasks ds st = Inr st'' \<Longrightarrow> visiting st'' = visiting st"
proof (induction tasks task st and tasks ds st arbitrary: st' and st''
    rule: visit_visit_deps.induct)
  case (1 tasks task st)
  show ?case
  proof (cases "t_id task \<in> visiting st \<or> t_id task \<in> visited st")
    case True
    with 1(2) show ?thesis by (auto simp: visit.simps split: if_splits)
  next
    case False
    let ?st1 = "st\<lparr>visiting := insert (t_id task) (visiting st)\<rparr>"
    from False 1(2) obtain st2 where
      r: "visit_deps tasks (deps_of task) ?st1 = Inr st2" and
      e: "st' = st2\<lparr>visiting := visiting st2 - {t_id task},
                    visited := insert (t_id task) (visited st2),
                    sorted' := sorted' st2 @ [task]\<rparr>"
      by (simp add: visit.simps split: sum.splits)
    from False 1(1)[OF _ _ r] have "visiting st2 = insert (t_id task) (visiting st)" by simp
    with e False show ?thesis by simp
  qed
next
  case (2 tasks st)
  then show ?case by simp
next
  case (3 tasks depId rest st)
  show ?case
  proof (cases "find (\<lambda>t. t_id t = depId) tasks")
    case None
    with 3(4) have "visit_deps tasks rest st = Inr st''" by simp
    from 3(1)[OF None this] show ?thesis .
  next
    case (Some depTask)
    with 3(4) obtain st1 where
      a: "visit tasks depTask st = Inr st1" and b: "visit_deps tasks rest st1 = Inr st''"
      by (simp split: sum.splits)
    from 3(2)[OF Some a] have "visiting st1 = visiting st" .
    moreover from 3(3)[OF Some a b] have "visiting st'' = visiting st1" .
    ultimately show ?thesis by simp
  qed
qed


fun deps_before :: "string set \<Rightarrow> string set \<Rightarrow> task list \<Rightarrow> bool" where
  "deps_before ids seen [] = True"
| "deps_before ids seen (t # ts) =
     ((\<forall>d \<in> set (deps_of t). d \<in> ids \<longrightarrow> d \<in> seen) \<and>
      deps_before ids (insert (t_id t) seen) ts)"

definition sort_inv :: "task list \<Rightarrow> sort_state \<Rightarrow> bool" where
  "sort_inv tasks st \<longleftrightarrow>
     set (sorted' st) \<subseteq> set tasks \<and>
     distinct (map t_id (sorted' st)) \<and>
     t_id ` set (sorted' st) = visited st \<and>
     visiting st \<inter> visited st = {} \<and>
     deps_before (t_id ` set tasks) {} (sorted' st)"

lemma deps_before_snoc:
  "deps_before ids seen (xs @ [t]) \<longleftrightarrow>
     deps_before ids seen xs \<and>
     (\<forall>d \<in> set (deps_of t). d \<in> ids \<longrightarrow> d \<in> seen \<union> t_id ` set xs)"
  by (induction xs arbitrary: seen) auto

lemma sort_inv_visiting:
  "sort_inv tasks st \<Longrightarrow> x \<notin> visited st \<Longrightarrow>
     sort_inv tasks (st\<lparr>visiting := insert x (visiting st)\<rparr>)"
  by (auto simp: sort_inv_def)

lemma sort_inv_emit:
  assumes "sort_inv tasks st" "task \<in> set tasks" "t_id task \<in> visiting st"
    and "\<forall>d \<in> set (deps_of task). d \<in> t_id ` set tasks \<longrightarrow> d \<in> visited st"
  shows "sort_inv tasks (st\<lparr>visiting := visiting st - {t_id task},
                      visited := insert (t_id task) (visited st),
                      sorted' := sorted' st @ [task]\<rparr>)"
  using assms unfolding sort_inv_def
  by (auto simp: deps_before_snoc)

lemma visit_inv:
  "task \<in> set tasks \<Longrightarrow> sort_inv tasks st \<Longrightarrow> visit tasks task st = Inr st' \<Longrightarrow>
     sort_inv tasks st' \<and> visited st \<subseteq> visited st' \<and> t_id task \<in> visited st'"
  "sort_inv tasks st \<Longrightarrow> visit_deps tasks ds st = Inr st'' \<Longrightarrow>
     sort_inv tasks st'' \<and> visited st \<subseteq> visited st'' \<and>
     (\<forall>d \<in> set ds. d \<in> t_id ` set tasks \<longrightarrow> d \<in> visited st'')"
proof (induction tasks task st and tasks ds st arbitrary: st' and st''
    rule: visit_visit_deps.induct)
  case (1 tasks task st)
  show ?case
  proof (cases "t_id task \<in> visiting st \<or> t_id task \<in> visited st")
    case True
    with 1(2-4) show ?thesis by (auto simp: visit.simps split: if_splits)
  next
    case False
    let ?st1 = "st\<lparr>visiting := insert (t_id task) (visiting st)\<rparr>"
    from False 1(4) obtain st2 where
      r: "visit_deps tasks (deps_of task) ?st1 = Inr st2" and
      e: "st' = st2\<lparr>visiting := visiting st2 - {t_id task},
                    visited := insert (t_id task) (visited st2),
                    sorted' := sorted' st2 @ [task]\<rparr>"
      by (simp add: visit.simps split: sum.splits)
    from False 1(3) have i1: "sort_inv tasks ?st1" by (simp add: sort_inv_visiting)
    from False 1(1)[OF _ _ i1 r]
    have i2: "sort_inv tasks st2" and m: "visited st \<subseteq> visited st2"
      and c: "\<forall>d \<in> set (deps_of task). d \<in> t_id ` set tasks \<longrightarrow> d \<in> visited st2"
      by simp_all
    from visiting_restored(2)[OF r] have "t_id task \<in> visiting st2" by simp
    from sort_inv_emit[OF i2 1(2) this c] e have "sort_inv tasks st'" by simp
    with e m show ?thesis by auto
  qed
next
  case (2 tasks st)
  then show ?case by simp
next
  case (3 tasks depId rest st)
  show ?case
  proof (cases "find (\<lambda>t. t_id t = depId) tasks")
    case None
    with 3(5) have r: "visit_deps tasks rest st = Inr st''" by simp
    from None have "depId \<notin> t_id ` set tasks" by (simp add: find_id_None)
    with 3(1)[OF None 3(4) r] show ?thesis by simp
  next
    case (Some depTask)
    with 3(5) obtain st1 where
      a: "visit tasks depTask st = Inr st1" and b: "visit_deps tasks rest st1 = Inr st''"
      by (simp split: sum.splits)
    from find_id_Some[OF Some] have dt: "depTask \<in> set tasks" "t_id depTask = depId" by simp_all
    from 3(2)[OF Some dt(1) 3(4) a]
    have i1: "sort_inv tasks st1" and m1: "visited st \<subseteq> visited st1"
      and v1: "depId \<in> visited st1" using dt(2) by simp_all
    from 3(3)[OF Some a i1 b]
    have "sort_inv tasks st''" and m2: "visited st1 \<subseteq> visited st''"
      and "\<forall>d \<in> set rest. d \<in> t_id ` set tasks \<longrightarrow> d \<in> visited st''"
      by simp_all
    with m1 v1 show ?thesis by auto
  qed
qed


definition on_cycle :: "task list \<Rightarrow> task \<Rightarrow> bool" where
  "on_cycle tasks t \<longleftrightarrow> t \<in> set tasks \<and> (t_id t, t_id t) \<in> (dep_graph tasks)\<^sup>+"

lemma visit_error:
  "task \<in> set tasks \<Longrightarrow> \<forall>v \<in> visiting st. (v, t_id task) \<in> (dep_graph tasks)\<^sup>+ \<Longrightarrow>
     visit tasks task st = Inl e \<Longrightarrow> \<exists>t. on_cycle tasks t \<and> e = circular_error t"
  "\<forall>d \<in> set ds. \<forall>v \<in> visiting st. (v, d) \<in> (dep_graph tasks)\<^sup>+ \<Longrightarrow>
     visit_deps tasks ds st = Inl e \<Longrightarrow> \<exists>t. on_cycle tasks t \<and> e = circular_error t"
proof (induction tasks task st and tasks ds st
    rule: visit_visit_deps.induct)
  case (1 tasks task st)
  show ?case
  proof (cases "t_id task \<in> visiting st")
    case True
    with 1(4) have "e = circular_error task" by (simp add: visit.simps)
    moreover from True 1(2,3) have "on_cycle tasks task" by (auto simp: on_cycle_def)
    ultimately show ?thesis by blast
  next
    case nv: False
    show ?thesis
    proof (cases "t_id task \<in> visited st")
      case True
      with nv 1(4) show ?thesis by (simp add: visit.simps)
    next
      case False
      let ?st1 = "st\<lparr>visiting := insert (t_id task) (visiting st)\<rparr>"
      from nv False 1(4) have r: "visit_deps tasks (deps_of task) ?st1 = Inl e"
        by (simp add: visit.simps split: sum.splits)
      have "\<forall>d \<in> set (deps_of task). \<forall>v \<in> visiting ?st1. (v, d) \<in> (dep_graph tasks)\<^sup>+"
      proof (intro ballI)
        fix d v assume d: "d \<in> set (deps_of task)" and v: "v \<in> visiting ?st1"
        from d 1(2) have edge: "(t_id task, d) \<in> dep_graph tasks"
          by (auto simp: in_dep_graph)
        show "(v, d) \<in> (dep_graph tasks)\<^sup>+"
        proof (cases "v = t_id task")
          case True
          with edge show ?thesis by auto
        next
          case False
          with v 1(3) have "(v, t_id task) \<in> (dep_graph tasks)\<^sup>+" by simp
          with edge show ?thesis by (auto intro: trancl_into_trancl)
        qed
      qed
      from 1(1)[OF nv False this r] show ?thesis .
    qed
  qed
next
  case (2 tasks st)
  then show ?case by simp
next
  case (3 tasks depId rest st)
  show ?case
  proof (cases "find (\<lambda>t. t_id t = depId) tasks")
    case None
    with 3(5) have r: "visit_deps tasks rest st = Inl e" by simp
    from 3(4) have "\<forall>d \<in> set rest. \<forall>v \<in> visiting st. (v, d) \<in> (dep_graph tasks)\<^sup>+" by simp
    from 3(1)[OF None this r] show ?thesis .
  next
    case (Some depTask)
    from find_id_Some[OF Some] have dt: "depTask \<in> set tasks" "t_id depTask = depId" by simp_all
    from 3(4) dt(2) have p1: "\<forall>v \<in> visiting st. (v, t_id depTask) \<in> (dep_graph tasks)\<^sup>+" by simp
    show ?thesis
    proof (cases "visit tasks depTask st")
      case (Inl e')
      with Some 3(5) have "visit tasks depTask st = Inl e" by simp
      from 3(2)[OF Some dt(1) p1 this] show ?thesis .
    next
      case (Inr st1)
      with Some 3(5) have r: "visit_deps tasks rest st1 = Inl e" by simp
      from visiting_restored(1)[OF Inr] 3(4)
      have "\<forall>d \<in> set rest. \<forall>v \<in> visiting st1. (v, d) \<in> (dep_graph tasks)\<^sup>+" by simp
      from 3(3)[OF Some Inr this r] show ?thesis .
    qed
  qed
qed

lemma visit_all_inv:
  "set xs \<subseteq> set tasks \<Longrightarrow> sort_inv tasks st \<Longrightarrow> visiting st = {} \<Longrightarrow>
     visit_all tasks xs st = Inr st' \<Longrightarrow>
     sort_inv tasks st' \<and> visited st \<union> t_id ` set xs \<subseteq> visited st'"
proof (induction xs arbitrary: st)
  case Nil
  then show ?case by simp
next
  case (Cons x xs)
  from Cons.prems(4) obtain st1 where
    a: "visit tasks x st = Inr st1" and b: "visit_all tasks xs st1 = Inr st'"
    by (auto split: sum.splits)
  from Cons.prems(1) have x: "x \<in> set tasks" and xs: "set xs \<subseteq> set tasks" by simp_all
  from visit_inv(1)[OF x Cons.prems(2) a]
  have i1: "sort_inv tasks st1" and m: "visited st \<subseteq> visited st1" and v: "t_id x \<in> visited st1"
    by simp_all
  from visiting_restored(1)[OF a] Cons.prems(3) have "visiting st1 = {}" by simp
  from Cons.IH[OF xs i1 this b] m v show ?case by auto
qed

lemma visit_all_error:
  "set xs \<subseteq> set tasks \<Longrightarrow> visiting st = {} \<Longrightarrow> visit_all tasks xs st = Inl e \<Longrightarrow>
     \<exists>t. on_cycle tasks t \<and> e = circular_error t"
proof (induction xs arbitrary: st)
  case Nil
  then show ?case by simp
next
  case (Cons x xs)
  from Cons.prems(1) have x: "x \<in> set tasks" and xs: "set xs \<subseteq> set tasks" by simp_all
  show ?case
  proof (cases "visit tasks x st")
    case (Inl e')
    with Cons.prems(3) have "visit tasks x st = Inl e" by simp
    from visit_error(1)[OF x _ this] Cons.prems(2) show ?thesis by simp
  next
    case (Inr st1)
    with Cons.prems(3) have b: "visit_all tasks xs st1 = Inl e" by simp
    from visiting_restored(1)[OF Inr] Cons.prems(2) have "visiting st1 = {}" by simp
    from Cons.IH[OF xs this b] show ?thesis .
  qed
qed


lemma deps_before_nth:
  "deps_before ids seen out \<Longrightarrow> j < length out \<Longrightarrow> d \<in> set (deps_of (out ! j)) \<Longrightarrow>
     d \<in> ids \<Longrightarrow> d \<in> seen \<or> (\<exists>i<j. t_id (out ! i) = d)"
proof (induction out arbitrary: seen j)
  case Nil
  then show ?case by simp
next
  case (Cons x xs)
  show ?case
  proof (cases j)
    case 0
    with Cons.prems show ?thesis by auto
  next
    case (Suc k)
    with Cons.prems have "deps_before ids (insert (t_id x) seen) xs" "k < length xs"
      "d \<in> set (deps_of (xs ! k))" by simp_all
    from Cons.IH[OF this Cons.prems(4)]
    have "d = t_id x \<or> d \<in> seen \<or> (\<exists>i<k. t_id (xs ! i) = d)" by auto
    then show ?thesis
    proof (elim disjE exE conjE)
      assume "d = t_id x"
      then have "0 < j \<and> t_id ((x # xs) ! 0) = d" using Suc by simp
      then show ?thesis by blast
    next
      assume "d \<in> seen" then show ?thesis by simp
    next
      fix i assume "i < k" "t_id (xs ! i) = d"
      then have "Suc i < j \<and> t_id ((x # xs) ! Suc i) = d" using Suc by simp
      then show ?thesis by blast
    qed
  qed
qed

lemma sorted_initial_inv: "sort_inv tasks \<lparr>sorted' = [], visited = {}, visiting = {}\<rparr>"
  by (simp add: sort_inv_def)

lemma same_id_same_task:
  "distinct (map t_id tasks) \<Longrightarrow> t \<in> set tasks \<Longrightarrow> t' \<in> set tasks \<Longrightarrow>
     t_id t = t_id t' \<Longrightarrow> t = t'"
  by (meson distinct_map inj_onD)

lemma sort_success:
  assumes d: "distinct (map t_id tasks)"
    and r: "sortTasksByPriorityAndDependencies tasks = Inr out"
  shows "mset out = mset tasks"
    and "deps_before (t_id ` set tasks) {} out"
    and "distinct (map t_id out)"
proof -
  let ?st0 = "\<lparr>sorted' = [], visited = {}, visiting = {}\<rparr>"
  from r obtain st where
    v: "visit_all tasks (sort_key t_priority tasks) ?st0 = Inr st" and o: "out = sorted' st"
    by (auto simp: sortTasksByPriorityAndDependencies_def split: sum.splits)
  have "set (sort_key t_priority tasks) \<subseteq> set tasks" by simp
  from visit_all_inv[OF this sorted_initial_inv _ v]
  have i: "sort_inv tasks st" and c: "t_id ` set tasks \<subseteq> visited st" by simp_all
  from i o have sub: "set out \<subseteq> set tasks" and dis: "distinct (map t_id out)"
    and vis: "t_id ` set out = visited st" and db: "deps_before (t_id ` set tasks) {} out"
    by (simp_all add: sort_inv_def)
  show "deps_before (t_id ` set tasks) {} out" by (rule db)
  show "distinct (map t_id out)" by (rule dis)
  have "set tasks \<subseteq> set out"
  proof
    fix t assume t: "t \<in> set tasks"
    with c vis have "t_id t \<in> t_id ` set out" by auto
    then obtain t' where t': "t' \<in> set out" "t_id t' = t_id t" by auto
    with sub have "t' \<in> set tasks" by auto
    from same_id_same_task[OF d t this] t' show "t \<in> set out" by simp
  qed
  with sub have "set out = set tasks" by auto
  moreover from dis have "distinct out" by (simp add: distinct_map)
  moreover from d have "distinct tasks" by (simp add: distinct_map)
  ultimately show "mset out = mset tasks" by (simp add: set_eq_iff_mset_eq_distinct)
qed

lemma sort_failure:
  assumes "sortTasksByPriorityAndDependencies tasks = Inl e"
  shows "\<exists>t. on_cycle tasks t \<and> e = circular_error t"
proof -
  let ?st0 = "\<lparr>sorted' = [], visited = {}, visiting = {}\<rparr>"
  from assms have v: "visit_all tasks (sort_key t_priority tasks) ?st0 = Inl e"
    by (auto simp: sortTasksByPriorityAndDependencies_def split: sum.splits)
  have "set (sort_key t_priority tasks) \<subseteq> set tasks" by simp
  from visit_all_error[OF this _ v] show ?thesis by simp
qed


lemma sorted_edge_earlier:
  assumes d: "distinct (map t_id tasks)"
    and r: "sortTasksByPriorityAndDependencies tasks = Inr out"
    and e: "(a, b) \<in> dep_graph tasks" and b: "b \<in> t_id ` set tasks"
    and j: "j < length out" "t_id (out ! j) = a"
  shows "\<exists>i<j. t_id (out ! i) = b"
proof -
  note s = sort_success[OF d r]
  from s(1) have se: "set out = set tasks" by (rule mset_eq_setD)
  from e obtain t where t: "t \<in> set tasks" "a = t_id t" "b \<in> set (deps_of t)"
    unfolding in_dep_graph by blast
  from j(1) have "out ! j \<in> set out" by (rule nth_mem)
  with se have m: "out ! j \<in> set tasks" by blast
  from j(2) t(2) have "t_id (out ! j) = t_id t" by (rule trans)
  from same_id_same_task[OF d m t(1) this] have "out ! j = t" .
  with t(3) have "b \<in> set (deps_of (out ! j))" by blast
  from deps_before_nth[OF s(2) j(1) this b] show ?thesis by blast
qed


lemma sorted_path_earlier:
  assumes d: "distinct (map t_id tasks)"
    and r: "sortTasksByPriorityAndDependencies tasks = Inr out"
    and p: "(a, b) \<in> (dep_graph tasks)\<^sup>+"
  shows "b \<in> t_id ` set tasks \<Longrightarrow> j < length out \<Longrightarrow> t_id (out ! j) = a \<Longrightarrow>
     \<exists>i<j. t_id (out ! i) = b"
  using p
proof (induction arbitrary: j rule: trancl_induct)
  case (base y)
  from sorted_edge_earlier[OF d r base(1) base(2) base(3) base(4)] show ?case .
next
  case (step y z)
  from step(2) have "y \<in> t_id ` set tasks" by (auto simp: in_dep_graph)
  from step(3)[OF this step(5) step(6)] obtain i where i: "i < j" "t_id (out ! i) = y" by blast
  from i(1) step(5) have "i < length out" by simp
  from sorted_edge_earlier[OF d r step(2) step(4) this i(2)] obtain k where
    "k < i" "t_id (out ! k) = z" by blast
  with i(1) have "k < j \<and> t_id (out ! k) = z" by simp
  then show ?case by blast
qed

lemma sort_success_acyclic:
  assumes d: "distinct (map t_id tasks)"
    and r: "sortTasksByPriorityAndDependencies tasks = Inr out"
  shows "acyclic (dep_graph tasks)"
proof (rule acyclicI, intro allI notI)
  fix x assume c: "(x, x) \<in> (dep_graph tasks)\<^sup>+"
  note s = sort_success[OF d r]
  from s(1) have se: "set out = set tasks" by (rule mset_eq_setD)
  from tranclD[OF c] have "x \<in> Domain (dep_graph tasks)" by auto
  then have x: "x \<in> t_id ` set tasks" by (auto simp: in_dep_graph)
  with se obtain t where "t \<in> set out" "t_id t = x" by auto
  then obtain j where j: "j < length out" "t_id (out ! j) = x"
    by (auto simp: in_set_conv_nth)
  from sorted_path_earlier[OF d r c x j] obtain i where i: "i < j" "t_id (out ! i) = x" by blast
  from i(1) j(1) have "i < length (map t_id out)" "j < length (map t_id out)" by simp_all
  moreover from i j have "map t_id out ! i = map t_id out ! j" by simp
  ultimately have "i = j" using nth_eq_iff_index_eq[OF s(3)] by blast
  with i(1) show False by simp
qed


subsection \<open>Example plans\<close>

text \<open>
  Concrete tasks for the examples below. \<open>diamond_tasks\<close> is a plan in which \<open>a\<close>
  needs \<open>b\<close> and \<open>c\<close>, and both need \<open>d\<close>.
\<close>

definition example_task :: "string \<Rightarrow> int \<Rightarrow> string list option \<Rightarrow> task" where
  "example_task i p ds =
     \<lparr>t_id = i, t_planId = ''plan'', t_title = ''Task '' @ i, t_status = TaskPending,
      t_priority = p, t_toolName = Some ''confluence_search'', t_toolParams = None,
      t_dependencies = ds, t_startedAt = None, t_completedAt = None, t_result = None\<rparr>"

definition diamond_tasks :: "task list" where
  "diamond_tasks =
     [example_task ''a'' 0 (Some [''b'', ''c'']),
      example_task ''b'' 2 (Some [''d'']),
      example_task ''c'' 1 (Some [''d'']),
      example_task ''d'' 3 None]"

lemma deps_closedD:
  "deps_closed tasks \<Longrightarrow> t \<in> set tasks \<Longrightarrow> d \<in> set (deps_of t) \<Longrightarrow> d \<in> t_id ` set tasks"
  by (auto simp: deps_closed_def list_all_iff)

lemma diamond_distinct: "distinct (map t_id diamond_tasks)"
  by (simp add: diamond_tasks_def example_task_def)

lemma diamond_closed: "deps_closed diamond_tasks"
  by (simp add: diamond_tasks_def example_task_def deps_closed_def deps_of_def)

lemma diamond_graph: "dep_graph diamond_tasks =
   {(''a'', ''b''), (''a'', ''c''), (''b'', ''d''), (''c'', ''d'')}"
  by (simp add: diamond_tasks_def example_task_def dep_graph_def dep_edges_def deps_of_def)

lemma diamond_acyclic: "acyclic (dep_graph diamond_tasks)"
proof -
  have "acyclic ({} :: (string \<times> string) set)" by (simp add: acyclic_def)
  then show ?thesis unfolding diamond_graph by (simp add: rtrancl_insert)
qed


lemma diamond_sorted:
  "map_sum id (map t_id) (sortTasksByPriorityAndDependencies diamond_tasks) =
     Inr [''d'', ''b'', ''c'', ''a'']"
  by (simp add: sortTasksByPriorityAndDependencies_def diamond_tasks_def example_task_def
      visit.simps deps_of_def)


subsection \<open>Claim C1: the sorter returns a topological permutation\<close>

text \<open>
  C1. For every set of tasks (task ids are the primary key, so they are pairwise
  distinct) whose dependency graph is acyclic and whose dependency ids all refer to
  tasks of the set, \<^verbatim>\<open>sortTasksByPriorityAndDependencies\<close> returns a sequence that is a
  permutation of the input, and for every task \<open>t\<close> and every dependency \<open>d\<close> of
  \<open>t\<close> the task with id \<open>d\<close> stands at an earlier position than \<open>t\<close>.
\<close>

theorem sorter_topological_permutation:
  assumes d: "distinct (map t_id tasks)"
    and a: "acyclic (dep_graph tasks)"
    and c: "deps_closed tasks"
  shows "\<exists>out. sortTasksByPriorityAndDependencies tasks = Inr out \<and>
           mset out = mset tasks \<and>
           (\<forall>t \<in> set tasks. \<forall>d \<in> set (deps_of t).
              \<exists>i j. i < j \<and> j < length out \<and> t_id (out ! i) = d \<and> out ! j = t)"
proof (cases "sortTasksByPriorityAndDependencies tasks")
  case (Inl e)
  from sort_failure[OF Inl] obtain t where "on_cycle tasks t" by blast
  then have "(t_id t, t_id t) \<in> (dep_graph tasks)\<^sup>+" unfolding on_cycle_def by blast
  with a show ?thesis unfolding acyclic_def by blast
next
  case (Inr out)
  note s = sort_success[OF d Inr]
  from s(1) have se: "set out = set tasks" by (rule mset_eq_setD)
  have "\<exists>i j. i < j \<and> j < length out \<and> t_id (out ! i) = dep \<and> out ! j = t"
    if t: "t \<in> set tasks" and dep: "dep \<in> set (deps_of t)" for t dep
  proof -
    from t se have "t \<in> set out" by blast
    then obtain j where j: "j < length out" "out ! j = t"
      unfolding in_set_conv_nth by blast
    from t dep have e: "(t_id t, dep) \<in> dep_graph tasks" unfolding in_dep_graph by blast
    from j(2) have "t_id (out ! j) = t_id t" by (rule arg_cong)
    from sorted_edge_earlier[OF d Inr e deps_closedD[OF c t dep] j(1) this]
    obtain i where "i < j" "t_id (out ! i) = dep" by blast
    with j show ?thesis by blast
  qed
  with Inr s(1) show ?thesis by blast
qed


theorem sorter_topological_permutation_witness:
  "distinct (map t_id diamond_tasks) \<and> acyclic (dep_graph diamond_tasks) \<and>
   deps_closed diamond_tasks \<and>
   (\<exists>out. sortTasksByPriorityAndDependencies diamond_tasks = Inr out \<and>
      mset out = mset diamond_tasks \<and>
      (\<forall>t \<in> set diamond_tasks. \<forall>d \<in> set (deps_of t).
         \<exists>i j. i < j \<and> j < length out \<and> t_id (out ! i) = d \<and> out ! j = t))"
  using sorter_topological_permutation[OF diamond_distinct diamond_acyclic diamond_closed]
    diamond_distinct diamond_acyclic diamond_closed
  by blast



section \<open>Persistence store, tools and the reasoning service\<close>

text \<open>
  The relational store is a record of tables, each a list of rows in insertion order.
  \<^verbatim>\<open>db.update(T).set(...).where(eq(T.id, x))\<close> rewrites every row whose id is \<open>x\<close>,
  \<^verbatim>\<open>db.insert(T).values(...)\<close> appends a row, \<^verbatim>\<open>db.delete(T).where(...)\<close> filters
  the table. The connection is opened by \<^verbatim>\<open>better-sqlite3\<close>, which enforces the
  foreign keys of \<^verbatim>\<open>schema.ts\<close>: an insert whose reference has no row throws
  \<^verbatim>\<open>FOREIGN KEY constraint failed\<close> and leaves the store as it was, and deleting a task row
  deletes the tool usage rows that reference it (\<^verbatim>\<open>onDelete: 'cascade'\<close>). The
  references are \<^verbatim>\<open>plans.mission_id\<close>, \<^verbatim>\<open>tasks.plan_id\<close> and the nullable
  \<^verbatim>\<open>tool_usage.task_id\<close>. Statements run one by one, with no transaction around
  them, so what was written before a failing statement stays written. Other failures
  (a lost connection, a full disk) are outside the model.
  \<^verbatim>\<open>new Date()\<close> and \<^verbatim>\<open>Date.now()\<close> read \<open>db_clock\<close>, which a tool call advances
  by the time the call takes; \<^verbatim>\<open>createId()\<close> draws from the counter
  \<open>db_nextId\<close>, and an id is taken to be new to its table (the primary key). Columns
  that the agent core never reads or writes after the insert (\<^verbatim>\<open>created_at\<close>,
  \<^verbatim>\<open>metadata\<close>, the descriptions and durations of a task) are left out, and so are
  the execution log and the logger, which no function below reads.
\<close>

record mission =
  m_id :: string
  m_title :: string
  m_description :: string
  m_status :: mission_status
  m_priority :: mission_priority
  m_completedAt :: "nat option"

record plan_row =
  p_id :: string
  p_missionId :: string
  p_version :: int
  p_title :: string
  p_description :: "string option"
  p_status :: plan_status
  p_estimatedDuration :: "int option"
  p_updatedAt :: nat

text \<open>The in-memory \<^verbatim>\<open>Plan\<close> is a plan row together with its tasks.\<close>

record plan = plan_row +
  p_tasks :: "task list"

record tool_usage =
  u_id :: string
  u_taskId :: "string option"
  u_toolName :: string
  u_parameters :: json
  u_result :: "json option"
  u_success :: bool
  u_duration :: int
  u_errorMessage :: "string option"
  u_timestamp :: nat

record db =
  db_missions :: "mission list"
  db_plans :: "plan_row list"
  db_tasks :: "task list"
  db_toolUsage :: "tool_usage list"
  db_clock :: nat
  db_nextId :: nat

definition id_of_nat :: "nat \<Rightarrow> string" where
  "id_of_nat n = CHR ''c'' # replicate n (CHR ''0'')"

definition createId :: "db \<Rightarrow> string \<times> db" where
  "createId d = (id_of_nat (db_nextId d), d\<lparr>db_nextId := Suc (db_nextId d)\<rparr>)"

definition update_tasks_where_id :: "string \<Rightarrow> (task \<Rightarrow> task) \<Rightarrow> db \<Rightarrow> db" where
  "update_tasks_where_id i f d =
     d\<lparr>db_tasks := map (\<lambda>r. if t_id r = i then f r else r) (db_tasks d)\<rparr>"

definition update_plans_where_id :: "string \<Rightarrow> (plan_row \<Rightarrow> plan_row) \<Rightarrow> db \<Rightarrow> db" where
  "update_plans_where_id i f d =
     d\<lparr>db_plans := map (\<lambda>r. if p_id r = i then f r else r) (db_plans d)\<rparr>"

definition update_missions_where_id :: "string \<Rightarrow> (mission \<Rightarrow> mission) \<Rightarrow> db \<Rightarrow> db" where
  "update_missions_where_id i f d =
     d\<lparr>db_missions := map (\<lambda>r. if m_id r = i then f r else r) (db_missions d)\<rparr>"

text \<open>
  The status stored under an id: \<open>None\<close> when the table has no row with that id.
  A reference to an id is valid when this is not \<open>None\<close>.
\<close>

definition task_status_of :: "db \<Rightarrow> string \<Rightarrow> task_status option" where
  "task_status_of d i = map_option t_status (find (\<lambda>r. t_id r = i) (db_tasks d))"

definition plan_status_of :: "db \<Rightarrow> string \<Rightarrow> plan_status option" where
  "plan_status_of d i = map_option p_status (find (\<lambda>r. p_id r = i) (db_plans d))"

definition mission_status_of :: "db \<Rightarrow> string \<Rightarrow> mission_status option" where
  "mission_status_of d i = map_option m_status (find (\<lambda>r. m_id r = i) (db_missions d))"

definition foreign_key_error :: error where
  "foreign_key_error = Error ''FOREIGN KEY constraint failed''"

text \<open>
  \<^verbatim>\<open>ToolResult\<close>, \<^verbatim>\<open>ExecutionContext\<close> (without the tool map, the cache and the
  logger) and \<^verbatim>\<open>Tool\<close>. A tool is external code: \<open>tool_execute\<close> gives, for the
  parameters and the context, the milliseconds the call takes and either the thrown
  error or the returned result. The registered tools write only to the knowledge base,
  which is not part of \<open>db\<close>.
\<close>

record tool_result =
  tr_success :: bool
  tr_data :: "json option"
  tr_error :: "string option"

record exec_context =
  c_missionId :: string
  c_planId :: string
  c_taskId :: "string option"

record tool =
  tool_name :: string
  tool_execute :: "json \<Rightarrow> exec_context \<Rightarrow> nat \<times> (error + tool_result)"

record execution_result =
  er_success :: bool
  er_completedTasks :: "task list"
  er_failedTasks :: "task list"
  er_reflections :: "json list"
  er_error :: "string option"

text \<open>
  Replies of the reasoning service, after \<^verbatim>\<open>JSON.parse\<close>. \<open>Inl\<close> stands for a call
  that throws or a reply that does not parse. A reply that parses carries the title
  and the numbers its prompt asks for; the optional \<^verbatim>\<open>description\<close> and
  \<^verbatim>\<open>estimatedDuration\<close> of a plan may be left out (\<open>None\<close> is \<^verbatim>\<open>undefined\<close>),
  and so may the \<^verbatim>\<open>tasks\<close> array, over which the planner iterates without a check.
\<close>

record task_data =
  td_title :: string
  td_priority :: int
  td_toolName :: "string option"
  td_toolParams :: "json option"
  td_dependencies :: "string list option"

record plan_data =
  pd_title :: string
  pd_description :: "string option"
  pd_estimatedDuration :: "int option"
  pd_tasks :: "task_data list option"
  pd_reasoning :: string
  pd_confidence :: rat

record assessment =
  a_completed :: bool
  a_completionPercentage :: rat

datatype plan_request =
    CreatePlanFor mission
  | UpdatePlanFor plan string
  | AdjustPlanFor mission plan rat

record planning_result =
  pr_plan :: plan
  pr_reasoning :: string
  pr_confidence :: rat

text \<open>
  The agent: the tool registry (\<^verbatim>\<open>ToolRegistry.get\<close>, whose source is not part of
  the repository files at hand, is taken as a lookup function) and the three calls of
  \<^verbatim>\<open>DeepSeekClient\<close> that the core makes.
\<close>

record agent =
  registry_get :: "string \<Rightarrow> tool option"
  deepseek_selectTool :: "task \<Rightarrow> error + string"
  deepseek_generatePlan :: "plan_request \<Rightarrow> error + plan_data"
  deepseek_assessCompletion :: "mission \<Rightarrow> execution_result \<Rightarrow> error + assessment"

section \<open>Task Executor\<close>

text \<open>
  \<^verbatim>\<open>ToolUseEngine.selectTool\<close>: a non-empty \<^verbatim>\<open>toolName\<close> is looked up in the
  registry; otherwise the reasoning service picks a name, and any error there gives
  \<^verbatim>\<open>null\<close>.
\<close>

definition selectTool :: "agent \<Rightarrow> task \<Rightarrow> tool option" where
  "selectTool ag task =
     (if t_toolName task \<noteq> None \<and> t_toolName task \<noteq> Some []
      then registry_get ag (the (t_toolName task))
      else (case deepseek_selectTool ag task of
              Inl e \<Rightarrow> None
            | Inr selectedTool \<Rightarrow> registry_get ag selectedTool))"

text \<open>
  \<^verbatim>\<open>db.insert(schema.toolUsage).values(...)\<close>. The column \<^verbatim>\<open>task_id\<close> references
  \<^verbatim>\<open>tasks.id\<close> and may be null: a task id without a task row makes the insert throw.
\<close>

definition references_task :: "db \<Rightarrow> string option \<Rightarrow> bool" where
  "references_task d taskId =
     (case taskId of None \<Rightarrow> True | Some t \<Rightarrow> task_status_of d t \<noteq> None)"

definition insert_toolUsage ::
  "string option \<Rightarrow> string \<Rightarrow> json \<Rightarrow> json option \<Rightarrow> bool \<Rightarrow> int \<Rightarrow> string option \<Rightarrow> db \<Rightarrow>
     error + db"
where
  "insert_toolUsage taskId toolName parameters result success duration errorMessage d =
     (let (i, d1) = createId d in
      if references_task d1 taskId
      then Inr (d1\<lparr>db_toolUsage := db_toolUsage d1 @
           [\<lparr>u_id = i, u_taskId = taskId, u_toolName = toolName, u_parameters = parameters,
             u_result = result, u_success = success, u_duration = duration,
             u_errorMessage = errorMessage, u_timestamp = db_clock d1\<rparr>]\<rparr>)
      else Inl foreign_key_error)"

text \<open>
  \<^verbatim>\<open>ToolUseEngine.executeTool\<close>. The \<^verbatim>\<open>try\<close> block calls the tool, logs the
  returned result and returns it. \<open>executeTool_catch\<close> is the \<^verbatim>\<open>catch\<close> block: it
  logs the error it caught and rethrows it. It catches what the tool throws and also
  what the insert of the \<^verbatim>\<open>try\<close> block throws; when its own insert throws, that
  error leaves \<^verbatim>\<open>executeTool\<close>.
\<close>

definition executeTool_catch ::
  "tool \<Rightarrow> json \<Rightarrow> exec_context \<Rightarrow> nat \<Rightarrow> error \<Rightarrow> db \<Rightarrow> (error + tool_result) \<times> db"
where
  "executeTool_catch tool params ctx startTime err d =
     (let duration = int (db_clock d) - int startTime in
      case insert_toolUsage (c_taskId ctx) (tool_name tool) params None
             False duration (Some (message err)) d of
        Inr d' \<Rightarrow> (Inl err, d')
      | Inl insertError \<Rightarrow> (Inl insertError, d))"

definition executeTool ::
  "tool \<Rightarrow> json \<Rightarrow> exec_context \<Rightarrow> db \<Rightarrow> (error + tool_result) \<times> db"
where
  "executeTool tool params ctx d =
     (let startTime = db_clock d;
          (elapsed, outcome) = tool_execute tool params ctx;
          d1 = d\<lparr>db_clock := db_clock d + elapsed\<rparr>
      in case outcome of
           Inr result \<Rightarrow>
             (let duration = int (db_clock d1) - int startTime in
              case insert_toolUsage (c_taskId ctx) (tool_name tool) params (tr_data result)
                     (tr_success result) duration (tr_error result) d1 of
                Inr d2 \<Rightarrow> (Inr result, d2)
              | Inl insertError \<Rightarrow> executeTool_catch tool params ctx startTime insertError d1)
         | Inl err \<Rightarrow> executeTool_catch tool params ctx startTime err d1)"

text \<open>
  \<^verbatim>\<open>AutonomousEngine.executeTask\<close>. \<open>task_failed\<close> is its \<^verbatim>\<open>catch\<close> block. A
  column set to \<^verbatim>\<open>undefined\<close> is left as it is by the query builder, so an absent
  \<^verbatim>\<open>result.data\<close> keeps the stored result.
\<close>

definition task_failed :: "task \<Rightarrow> error \<Rightarrow> db \<Rightarrow> (error + tool_result) \<times> db" where
  "task_failed task err d =
     (Inl err,
      update_tasks_where_id (t_id task)
        (\<lambda>r. r\<lparr>t_status := TaskFailed, t_completedAt := Some (db_clock d),
                t_result := Some (JObj [(''error'', JStr (message err))])\<rparr>) d)"

definition executeTask ::
  "agent \<Rightarrow> task \<Rightarrow> exec_context \<Rightarrow> db \<Rightarrow> (error + tool_result) \<times> db"
where
  "executeTask ag task ctx d =
     (let d1 = update_tasks_where_id (t_id task)
                 (\<lambda>r. r\<lparr>t_status := TaskInProgress, t_startedAt := Some (db_clock d)\<rparr>) d
      in case selectTool ag task of
           None \<Rightarrow>
             task_failed task (Error (''No suitable tool found for task: '' @ t_title task)) d1
         | Some tool \<Rightarrow>
             (case executeTool tool
                     (case t_toolParams task of None \<Rightarrow> JObj [] | Some p \<Rightarrow> p)
                     (ctx\<lparr>c_taskId := Some (t_id task)\<rparr>) d1 of
                (Inl err, d2) \<Rightarrow> task_failed task err d2
              | (Inr result, d2) \<Rightarrow>
                  (let status = (if tr_success result then TaskCompleted else TaskFailed) in
                   (Inr result,
                    update_tasks_where_id (t_id task)
                      (\<lambda>r. r\<lparr>t_status := status, t_completedAt := Some (db_clock d2),
                              t_result := (case tr_data result of
                                             None \<Rightarrow> t_result r
                                           | Some v \<Rightarrow> Some v)\<rparr>) d2))))"

section \<open>Plan Executor\<close>

text \<open>
  The dependency check of \<^verbatim>\<open>executePlan\<close>: the rows of the plan are read from the
  store, and a dependency is incomplete unless a row with that id is \<^verbatim>\<open>completed\<close>.
\<close>

definition incompleteDeps :: "plan \<Rightarrow> task \<Rightarrow> db \<Rightarrow> string list" where
  "incompleteDeps plan task d =
     (let dependencyStatuses = filter (\<lambda>t. t_planId t = p_id plan) (db_tasks d) in
      filter (\<lambda>depId.
          find (\<lambda>t. t_id t = depId \<and> t_status t = TaskCompleted) dependencyStatuses = None)
        (deps_of task))"

text \<open>
  The \<^verbatim>\<open>for\<close> loop of \<^verbatim>\<open>executePlan\<close> over the sorted tasks, with the two result
  arrays as accumulators. A task with an incomplete dependency is skipped
  (\<^verbatim>\<open>continue\<close>); an error thrown by \<^verbatim>\<open>executeTask\<close> is caught inside the loop.
\<close>

fun run_tasks ::
  "agent \<Rightarrow> plan \<Rightarrow> exec_context \<Rightarrow> task list \<Rightarrow> task list \<Rightarrow> task list \<Rightarrow> db \<Rightarrow>
     (task list \<times> task list) \<times> db"
where
  "run_tasks ag plan ctx [] completedTasks failedTasks d = ((completedTasks, failedTasks), d)"
| "run_tasks ag plan ctx (task # rest) completedTasks failedTasks d =
     (if deps_of task \<noteq> [] \<and> incompleteDeps plan task d \<noteq> []
      then run_tasks ag plan ctx rest completedTasks failedTasks d
      else
        (case executeTask ag task ctx d of
           (Inr result, d') \<Rightarrow>
             (if tr_success result
              then run_tasks ag plan ctx rest (completedTasks @ [task]) failedTasks d'
              else run_tasks ag plan ctx rest completedTasks (failedTasks @ [task]) d')
         | (Inl err, d') \<Rightarrow>
             run_tasks ag plan ctx rest completedTasks (failedTasks @ [task]) d'))"

definition set_plan_status :: "string \<Rightarrow> plan_status \<Rightarrow> db \<Rightarrow> db" where
  "set_plan_status i s d = update_plans_where_id i (\<lambda>r. r\<lparr>p_status := s\<rparr>) d"

definition executePlan :: "agent \<Rightarrow> plan \<Rightarrow> exec_context \<Rightarrow> db \<Rightarrow> execution_result \<times> db" where
  "executePlan ag plan ctx d =
     (let d1 = set_plan_status (p_id plan) PlanActive d in
      case sortTasksByPriorityAndDependencies (p_tasks plan) of
        Inl err \<Rightarrow>
          (\<lparr>er_success = False, er_completedTasks = [], er_failedTasks = [],
            er_reflections = [], er_error = Some (message err)\<rparr>,
           set_plan_status (p_id plan) PlanFailed d1)
      | Inr sortedTasks \<Rightarrow>
          (case run_tasks ag plan ctx sortedTasks [] [] d1 of
             ((completedTasks, failedTasks), d2) \<Rightarrow>
               (let finalStatus = (if failedTasks = [] then PlanCompleted else PlanFailed) in
                (\<lparr>er_success = (failedTasks = []), er_completedTasks = completedTasks,
                  er_failedTasks = failedTasks, er_reflections = [], er_error = None\<rparr>,
                 set_plan_status (p_id plan) finalStatus d2))))"


section \<open>Example store, agent and plans\<close>

text \<open>
  A store with one mission and one plan, an agent whose registry knows one tool and whose
  reasoning service is unreachable, and a plan whose tasks \<open>x\<close>, \<open>y\<close>, \<open>z\<close>
  depend on each other in a circle.
\<close>

definition example_plan :: "task list \<Rightarrow> plan" where
  "example_plan ts =
     \<lparr>p_id = ''plan'', p_missionId = ''mission'', p_version = 1, p_title = ''Plan'',
      p_description = None, p_status = PlanDraft, p_estimatedDuration = None,
      p_updatedAt = 0, p_tasks = ts\<rparr>"

definition example_db :: "task list \<Rightarrow> db" where
  "example_db ts =
     \<lparr>db_missions =
        [\<lparr>m_id = ''mission'', m_title = ''Mission'', m_description = ''Goal'',
          m_status = MissionPending, m_priority = Medium, m_completedAt = None\<rparr>],
      db_plans =
        [\<lparr>p_id = ''plan'', p_missionId = ''mission'', p_version = 1, p_title = ''Plan'',
          p_description = None, p_status = PlanDraft, p_estimatedDuration = None,
          p_updatedAt = 0\<rparr>],
      db_tasks = ts, db_toolUsage = [], db_clock = 1000, db_nextId = 0\<rparr>"

definition example_context :: exec_context where
  "example_context = \<lparr>c_missionId = ''mission'', c_planId = ''plan'', c_taskId = None\<rparr>"

definition search_tool :: tool where
  "search_tool =
     \<lparr>tool_name = ''confluence_search'',
      tool_execute = (\<lambda>params ctx.
        (25, Inr \<lparr>tr_success = True, tr_data = Some (JObj [(''totalFound'', JNum 0)]),
                  tr_error = None\<rparr>))\<rparr>"

definition example_agent :: agent where
  "example_agent =
     \<lparr>registry_get = (\<lambda>n. if n = ''confluence_search'' then Some search_tool else None),
      deepseek_selectTool = (\<lambda>task. Inl (Error ''DeepSeek API error: timeout'')),
      deepseek_generatePlan = (\<lambda>req. Inl (Error ''DeepSeek API error: timeout'')),
      deepseek_assessCompletion = (\<lambda>m r. Inl (Error ''DeepSeek API error: timeout''))\<rparr>"

definition cyclic_tasks :: "task list" where
  "cyclic_tasks =
     [example_task ''x'' 0 (Some [''y'']),
      example_task ''y'' 1 (Some [''z'']),
      example_task ''z'' 2 (Some [''x'']),
      example_task ''w'' 3 None]"


section \<open>Plan execution on a cyclic plan\<close>

lemma sort_cyclic_fails:
  assumes d: "distinct (map t_id tasks)" and c: "\<not> acyclic (dep_graph tasks)"
  shows "\<exists>t. on_cycle tasks t \<and> sortTasksByPriorityAndDependencies tasks = Inl (circular_error t)"
proof (cases "sortTasksByPriorityAndDependencies tasks")
  case (Inl e)
  from sort_failure[OF Inl] Inl show ?thesis by blast
next
  case (Inr out)
  from sort_success_acyclic[OF d Inr] c show ?thesis by blast
qed

lemma executePlan_sort_error:
  assumes "sortTasksByPriorityAndDependencies (p_tasks plan) = Inl err"
  shows "executePlan ag plan ctx d =
           (\<lparr>er_success = False, er_completedTasks = [], er_failedTasks = [],
             er_reflections = [], er_error = Some (message err)\<rparr>,
            set_plan_status (p_id plan) PlanFailed (set_plan_status (p_id plan) PlanActive d))"
  using assms by (simp add: executePlan_def)

lemma set_plan_status_frame [simp]:
  "db_tasks (set_plan_status i s d) = db_tasks d"
  "db_toolUsage (set_plan_status i s d) = db_toolUsage d"
  "db_missions (set_plan_status i s d) = db_missions d"
  "db_clock (set_plan_status i s d) = db_clock d"
  "db_nextId (set_plan_status i s d) = db_nextId d"
  by (simp_all add: set_plan_status_def update_plans_where_id_def)

lemma set_plan_status_plans:
  "db_plans (set_plan_status i s d) =
     map (\<lambda>r. if p_id r = i then r\<lparr>p_status := s\<rparr> else r) (db_plans d)"
  by (simp add: set_plan_status_def update_plans_where_id_def)

lemma set_plan_status_twice:
  "set_plan_status i s (set_plan_status i s' d) = set_plan_status i s d"
  by (simp add: set_plan_status_def update_plans_where_id_def o_def cong: if_cong)


lemma cyclic_distinct: "distinct (map t_id (p_tasks (example_plan cyclic_tasks)))"
  by (simp add: example_plan_def cyclic_tasks_def example_task_def)

lemma cyclic_graph: "dep_graph (p_tasks (example_plan cyclic_tasks)) =
   {(''x'', ''y''), (''y'', ''z''), (''z'', ''x'')}"
  by (simp add: example_plan_def cyclic_tasks_def example_task_def dep_graph_def
      dep_edges_def deps_of_def)

lemma cyclic_not_acyclic: "\<not> acyclic (dep_graph (p_tasks (example_plan cyclic_tasks)))"
  unfolding cyclic_graph by (simp add: rtrancl_insert)

lemma cyclic_sort_value:
  "sortTasksByPriorityAndDependencies cyclic_tasks =
     Inl (Error ''Circular dependency detected involving task: Task x'')"
  by (simp add: sortTasksByPriorityAndDependencies_def cyclic_tasks_def example_task_def
      visit.simps deps_of_def circular_error_def)


subsection \<open>Claim C2: a dependency cycle fails the sorter and the whole plan\<close>

text \<open>
  C2. For every set of tasks (with pairwise distinct ids) that contains a dependency
  cycle, the sorter fails with the error that names a task lying on a cycle, and returns
  no ordering. \<^verbatim>\<open>executePlan\<close> on such a plan returns a failure result that carries
  this error, with no completed and no failed task; the only change to the store is
  that the plan's status is \<^verbatim>\<open>failed\<close>: no task row is touched and no tool is
  invoked.
\<close>

theorem cyclic_plan_fails:
  assumes "distinct (map t_id (p_tasks plan))"
    and "\<not> acyclic (dep_graph (p_tasks plan))"
  shows "\<exists>t. on_cycle (p_tasks plan) t \<and>
           sortTasksByPriorityAndDependencies (p_tasks plan) = Inl (circular_error t) \<and>
           executePlan ag plan ctx d =
             (\<lparr>er_success = False, er_completedTasks = [], er_failedTasks = [],
               er_reflections = [], er_error = Some (message (circular_error t))\<rparr>,
              set_plan_status (p_id plan) PlanFailed d) \<and>
           db_tasks (snd (executePlan ag plan ctx d)) = db_tasks d \<and>
           db_toolUsage (snd (executePlan ag plan ctx d)) = db_toolUsage d"
proof -
  from sort_cyclic_fails[OF assms] obtain t where
    t: "on_cycle (p_tasks plan) t"
    and s: "sortTasksByPriorityAndDependencies (p_tasks plan) = Inl (circular_error t)"
    by blast
  from executePlan_sort_error[OF s, of ag ctx d]
  have e: "executePlan ag plan ctx d =
             (\<lparr>er_success = False, er_completedTasks = [], er_failedTasks = [],
               er_reflections = [], er_error = Some (message (circular_error t))\<rparr>,
              set_plan_status (p_id plan) PlanFailed d)"
    by (simp only: set_plan_status_twice)
  then have "db_tasks (snd (executePlan ag plan ctx d)) = db_tasks d"
    and "db_toolUsage (snd (executePlan ag plan ctx d)) = db_toolUsage d"
    by simp_all
  with t s e show ?thesis by blast
qed


theorem cyclic_plan_fails_witness:
  "distinct (map t_id (p_tasks (example_plan cyclic_tasks))) \<and>
   \<not> acyclic (dep_graph (p_tasks (example_plan cyclic_tasks))) \<and>
   (\<exists>t. on_cycle (p_tasks (example_plan cyclic_tasks)) t \<and>
      sortTasksByPriorityAndDependencies (p_tasks (example_plan cyclic_tasks)) =
        Inl (circular_error t) \<and>
      executePlan example_agent (example_plan cyclic_tasks) example_context
          (example_db cyclic_tasks) =
        (\<lparr>er_success = False, er_completedTasks = [], er_failedTasks = [],
          er_reflections = [], er_error = Some (message (circular_error t))\<rparr>,
         set_plan_status (p_id (example_plan cyclic_tasks)) PlanFailed
           (example_db cyclic_tasks)) \<and>
      db_tasks (snd (executePlan example_agent (example_plan cyclic_tasks) example_context
          (example_db cyclic_tasks))) = db_tasks (example_db cyclic_tasks) \<and>
      db_toolUsage (snd (executePlan example_agent (example_plan cyclic_tasks)
          example_context (example_db cyclic_tasks))) = db_toolUsage (example_db cyclic_tasks))"
  using cyclic_plan_fails[OF cyclic_distinct cyclic_not_acyclic,
      of example_agent example_context "example_db cyclic_tasks"]
    cyclic_distinct cyclic_not_acyclic
  by blast



section \<open>Facts about the Task Executor\<close>

text \<open>\<^verbatim>\<open>task.toolParams || {}\<close>, the parameters a task's tool is called with.\<close>

definition params_of :: "task \<Rightarrow> json" where
  "params_of task = (case t_toolParams task of None \<Rightarrow> JObj [] | Some p \<Rightarrow> p)"

lemma update_tasks_frame [simp]:
  "db_plans (update_tasks_where_id i f d) = db_plans d"
  "db_missions (update_tasks_where_id i f d) = db_missions d"
  "db_toolUsage (update_tasks_where_id i f d) = db_toolUsage d"
  "db_clock (update_tasks_where_id i f d) = db_clock d"
  "db_nextId (update_tasks_where_id i f d) = db_nextId d"
  by (simp_all add: update_tasks_where_id_def)

lemma update_tasks_tasks:
  "db_tasks (update_tasks_where_id i f d) = map (\<lambda>r. if t_id r = i then f r else r) (db_tasks d)"
  by (simp add: update_tasks_where_id_def)

lemma find_id_map:
  assumes "\<And>r. t_id (h r) = t_id r"
  shows "find (\<lambda>r. t_id r = i) (map h rows) = map_option h (find (\<lambda>r. t_id r = i) rows)"
  using assms by (induction rows) auto

lemma task_status_of_update:
  assumes "\<And>r. t_id (f r) = t_id r"
  shows "(task_status_of (update_tasks_where_id i f d) j = None) = (task_status_of d j = None)"
proof -
  have "find (\<lambda>r. t_id r = j) (map (\<lambda>r. if t_id r = i then f r else r) (db_tasks d)) =
      map_option (\<lambda>r. if t_id r = i then f r else r) (find (\<lambda>r. t_id r = j) (db_tasks d))"
    by (rule find_id_map) (simp add: assms)
  then show ?thesis by (simp add: task_status_of_def update_tasks_tasks)
qed

lemma no_row_update:
  assumes "task_status_of d i = None"
  shows "map (\<lambda>r. if t_id r = i then f r else r) (db_tasks d) = db_tasks d"
proof -
  from assms have "\<forall>r \<in> set (db_tasks d). t_id r \<noteq> i"
    by (simp add: task_status_of_def find_None_iff)
  then show ?thesis by (simp add: map_idI)
qed

lemma references_task_cong:
  "db_tasks d' = db_tasks d \<Longrightarrow> references_task d' t = references_task d t"
  by (simp add: references_task_def task_status_of_def split: option.splits)

lemma insert_toolUsage_ok:
  assumes "references_task d a"
  shows "insert_toolUsage a b c e f g h d =
     Inr (d\<lparr>db_nextId := Suc (db_nextId d),
            db_toolUsage := db_toolUsage d @
              [\<lparr>u_id = id_of_nat (db_nextId d), u_taskId = a, u_toolName = b, u_parameters = c,
                u_result = e, u_success = f, u_duration = g, u_errorMessage = h,
                u_timestamp = db_clock d\<rparr>]\<rparr>)"
proof -
  have "references_task (d\<lparr>db_nextId := Suc (db_nextId d)\<rparr>) a = references_task d a"
    by (rule references_task_cong) simp
  with assms show ?thesis by (simp add: insert_toolUsage_def createId_def)
qed

lemma insert_toolUsage_fails:
  assumes "\<not> references_task d a"
  shows "insert_toolUsage a b c e f g h d = Inl foreign_key_error"
proof -
  have "references_task (d\<lparr>db_nextId := Suc (db_nextId d)\<rparr>) a = references_task d a"
    by (rule references_task_cong) simp
  with assms show ?thesis by (simp add: insert_toolUsage_def createId_def)
qed

text \<open>The row that \<^verbatim>\<open>executeTool\<close> writes for an outcome of the tool.\<close>

definition usage_row ::
  "tool \<Rightarrow> json \<Rightarrow> exec_context \<Rightarrow> db \<Rightarrow> tool_usage" where
  "usage_row tool params ctx d =
     (case tool_execute tool params ctx of
        (elapsed, Inr result) \<Rightarrow>
          \<lparr>u_id = id_of_nat (db_nextId d), u_taskId = c_taskId ctx, u_toolName = tool_name tool,
           u_parameters = params, u_result = tr_data result, u_success = tr_success result,
           u_duration = int elapsed, u_errorMessage = tr_error result,
           u_timestamp = db_clock d + elapsed\<rparr>
      | (elapsed, Inl err) \<Rightarrow>
          \<lparr>u_id = id_of_nat (db_nextId d), u_taskId = c_taskId ctx, u_toolName = tool_name tool,
           u_parameters = params, u_result = None, u_success = False,
           u_duration = int elapsed, u_errorMessage = Some (message err),
           u_timestamp = db_clock d + elapsed\<rparr>)"

text \<open>
  With a valid task reference the usage row is written and \<^verbatim>\<open>executeTool\<close> ends as
  the tool did.
\<close>

lemma executeTool_ok:
  assumes "references_task d (c_taskId ctx)"
  shows "fst (executeTool tool params ctx d) = snd (tool_execute tool params ctx)"
    and "db_toolUsage (snd (executeTool tool params ctx d)) =
           db_toolUsage d @ [usage_row tool params ctx d]"
proof -
  obtain elapsed outcome where o: "tool_execute tool params ctx = (elapsed, outcome)" by force
  let ?d1 = "d\<lparr>db_clock := db_clock d + elapsed\<rparr>"
  have "references_task ?d1 (c_taskId ctx) = references_task d (c_taskId ctx)"
    by (rule references_task_cong) simp
  with assms have r: "references_task ?d1 (c_taskId ctx)" by simp
  show "fst (executeTool tool params ctx d) = snd (tool_execute tool params ctx)"
    by (cases outcome)
      (simp_all add: executeTool_def executeTool_catch_def o insert_toolUsage_ok[OF r])
  show "db_toolUsage (snd (executeTool tool params ctx d)) =
           db_toolUsage d @ [usage_row tool params ctx d]"
    by (cases outcome)
      (simp_all add: executeTool_def executeTool_catch_def o insert_toolUsage_ok[OF r]
        usage_row_def)
qed

text \<open>
  With a task id that has no row, both inserts throw: the tool has been called, no usage
  row is written, and the error that leaves \<^verbatim>\<open>executeTool\<close> is the one of the
  insert, whatever the tool returned or threw.
\<close>

lemma executeTool_no_row:
  assumes "\<not> references_task d (c_taskId ctx)"
  shows "fst (executeTool tool params ctx d) = Inl foreign_key_error"
    and "db_toolUsage (snd (executeTool tool params ctx d)) = db_toolUsage d"
proof -
  obtain elapsed outcome where o: "tool_execute tool params ctx = (elapsed, outcome)" by force
  let ?d1 = "d\<lparr>db_clock := db_clock d + elapsed\<rparr>"
  have "references_task ?d1 (c_taskId ctx) = references_task d (c_taskId ctx)"
    by (rule references_task_cong) simp
  with assms have r: "\<not> references_task ?d1 (c_taskId ctx)" by simp
  show "fst (executeTool tool params ctx d) = Inl foreign_key_error"
    by (cases outcome)
      (simp_all add: executeTool_def executeTool_catch_def o insert_toolUsage_fails[OF r])
  show "db_toolUsage (snd (executeTool tool params ctx d)) = db_toolUsage d"
    by (cases outcome)
      (simp_all add: executeTool_def executeTool_catch_def o insert_toolUsage_fails[OF r])
qed

lemma executeTool_frame [simp]:
  "db_plans (snd (executeTool tool params ctx d)) = db_plans d"
  "db_missions (snd (executeTool tool params ctx d)) = db_missions d"
  "db_tasks (snd (executeTool tool params ctx d)) = db_tasks d"
  "db_clock (snd (executeTool tool params ctx d)) = db_clock d + fst (tool_execute tool params ctx)"
proof -
  obtain elapsed outcome where o: "tool_execute tool params ctx = (elapsed, outcome)" by force
  let ?d1 = "d\<lparr>db_clock := db_clock d + elapsed\<rparr>"
  have "db_plans (snd (executeTool tool params ctx d)) = db_plans d \<and>
        db_missions (snd (executeTool tool params ctx d)) = db_missions d \<and>
        db_tasks (snd (executeTool tool params ctx d)) = db_tasks d \<and>
        db_clock (snd (executeTool tool params ctx d)) = db_clock d + elapsed"
  proof (cases "references_task ?d1 (c_taskId ctx)")
    case True
    show ?thesis
      by (cases outcome)
        (simp_all add: executeTool_def executeTool_catch_def o insert_toolUsage_ok[OF True])
  next
    case False
    show ?thesis
      by (cases outcome)
        (simp_all add: executeTool_def executeTool_catch_def o insert_toolUsage_fails[OF False])
  qed
  with o show "db_plans (snd (executeTool tool params ctx d)) = db_plans d"
    and "db_missions (snd (executeTool tool params ctx d)) = db_missions d"
    and "db_tasks (snd (executeTool tool params ctx d)) = db_tasks d"
    and "db_clock (snd (executeTool tool params ctx d)) =
           db_clock d + fst (tool_execute tool params ctx)"
    by simp_all
qed

text \<open>
  \<^verbatim>\<open>executeTask\<close> calls the tool with the task's id in the context: the usage row is
  written exactly when a tool was selected and the task has its row.
\<close>

lemma executeTask_reference:
  "references_task
     (update_tasks_where_id (t_id task)
        (\<lambda>r. r\<lparr>t_status := TaskInProgress, t_startedAt := Some (db_clock d)\<rparr>) d)
     (Some (t_id task)) =
   (task_status_of d (t_id task) \<noteq> None)"
  by (simp add: references_task_def task_status_of_update)

lemma executeTask_usage:
  "db_toolUsage (snd (executeTask ag task ctx d)) = db_toolUsage d @
     (case selectTool ag task of
        None \<Rightarrow> []
      | Some tool \<Rightarrow>
          (if task_status_of d (t_id task) = None then []
           else [usage_row tool (params_of task) (ctx\<lparr>c_taskId := Some (t_id task)\<rparr>) d]))"
proof (cases "selectTool ag task")
  case None
  then show ?thesis by (simp add: executeTask_def task_failed_def)
next
  case (Some tool)
  let ?d1 = "update_tasks_where_id (t_id task)
                 (\<lambda>r. r\<lparr>t_status := TaskInProgress, t_startedAt := Some (db_clock d)\<rparr>) d"
  let ?c = "ctx\<lparr>c_taskId := Some (t_id task)\<rparr>"
  obtain r d2 where e: "executeTool tool (params_of task) ?c ?d1 = (r, d2)" by force
  have u: "db_toolUsage d2 = db_toolUsage d @
      (if task_status_of d (t_id task) = None then []
       else [usage_row tool (params_of task) ?c d])"
  proof (cases "task_status_of d (t_id task) = None")
    case True
    then have "\<not> references_task ?d1 (c_taskId ?c)" by (simp add: executeTask_reference)
    from executeTool_no_row(2)[OF this, of tool "params_of task"] e True show ?thesis
      by simp
  next
    case False
    then have "references_task ?d1 (c_taskId ?c)" by (simp add: executeTask_reference)
    from executeTool_ok(2)[OF this, of tool "params_of task"] e False show ?thesis
      by (simp add: usage_row_def)
  qed
  with Some e show ?thesis
    by (cases r) (simp_all add: executeTask_def task_failed_def Let_def params_of_def)
qed

lemma executeTask_outcome:
  assumes "selectTool ag task = Some tool"
  shows "fst (executeTask ag task ctx d) =
       (if task_status_of d (t_id task) = None then Inl foreign_key_error
        else snd (tool_execute tool (params_of task) (ctx\<lparr>c_taskId := Some (t_id task)\<rparr>)))"
proof -
  let ?d1 = "update_tasks_where_id (t_id task)
                 (\<lambda>r. r\<lparr>t_status := TaskInProgress, t_startedAt := Some (db_clock d)\<rparr>) d"
  let ?c = "ctx\<lparr>c_taskId := Some (t_id task)\<rparr>"
  obtain r d2 where e: "executeTool tool (params_of task) ?c ?d1 = (r, d2)" by force
  have r: "r = (if task_status_of d (t_id task) = None then Inl foreign_key_error
        else snd (tool_execute tool (params_of task) ?c))"
  proof (cases "task_status_of d (t_id task) = None")
    case True
    then have "\<not> references_task ?d1 (c_taskId ?c)" by (simp add: executeTask_reference)
    from executeTool_no_row(1)[OF this, of tool "params_of task"] e True show ?thesis
      by simp
  next
    case False
    then have "references_task ?d1 (c_taskId ?c)" by (simp add: executeTask_reference)
    from executeTool_ok(1)[OF this, of tool "params_of task"] e
    have "r = snd (tool_execute tool (params_of task) ?c)" by simp
    with False show ?thesis by auto
  qed
  have "fst (executeTask ag task ctx d) = r"
    using assms e
    by (cases r) (simp_all add: executeTask_def task_failed_def Let_def params_of_def)
  with r show ?thesis by simp
qed


subsection \<open>Claim C7: one tool usage row per tool invocation\<close>

text \<open>
  C7. Let the task id of the context be absent or the id of a stored task, as it is when
  the Task Executor runs a task that has its row. Then every call of
  \<^verbatim>\<open>executeTool\<close> appends exactly one row to the tool usage table, whether the tool
  returns or throws, and ends as the tool did. The row's duration is the clock
  difference measured around the call; its success flag is the flag of the returned
  result, and \<^verbatim>\<open>false\<close> when the tool throws; its error message is the error text of
  the returned result, and the message of the thrown error. \<^verbatim>\<open>executeTask\<close>, for a
  task that has its row, appends that row, for the task's id and parameters, exactly
  when a tool was selected and invoked, and no row when no tool is found.
\<close>

theorem tool_usage_recorded:
  assumes ref: "references_task d (c_taskId ctx)"
    and row: "task_status_of d (t_id task) \<noteq> None"
  shows "fst (executeTool tool params ctx d) = snd (tool_execute tool params ctx) \<and>
   db_toolUsage (snd (executeTool tool params ctx d)) =
     db_toolUsage d @ [usage_row tool params ctx d] \<and>
   u_duration (usage_row tool params ctx d) =
     int (db_clock (snd (executeTool tool params ctx d))) - int (db_clock d) \<and>
   (case fst (executeTool tool params ctx d) of
      Inr result \<Rightarrow>
        u_success (usage_row tool params ctx d) = tr_success result \<and>
        u_errorMessage (usage_row tool params ctx d) = tr_error result
    | Inl err \<Rightarrow>
        u_success (usage_row tool params ctx d) = False \<and>
        u_errorMessage (usage_row tool params ctx d) = Some (message err)) \<and>
   db_toolUsage (snd (executeTask ag task ctx' d)) = db_toolUsage d @
     (case selectTool ag task of
        None \<Rightarrow> []
      | Some tool' \<Rightarrow>
          [usage_row tool' (params_of task) (ctx'\<lparr>c_taskId := Some (t_id task)\<rparr>) d])"
proof -
  note ok = executeTool_ok[OF ref, of tool params]
  have "u_duration (usage_row tool params ctx d) =
     int (db_clock (snd (executeTool tool params ctx d))) - int (db_clock d)"
    by (simp add: usage_row_def split: prod.splits sum.splits)
  moreover have "(case fst (executeTool tool params ctx d) of
      Inr result \<Rightarrow>
        u_success (usage_row tool params ctx d) = tr_success result \<and>
        u_errorMessage (usage_row tool params ctx d) = tr_error result
    | Inl err \<Rightarrow>
        u_success (usage_row tool params ctx d) = False \<and>
        u_errorMessage (usage_row tool params ctx d) = Some (message err))"
    by (simp add: ok(1) usage_row_def split: prod.splits sum.splits)
  moreover have "db_toolUsage (snd (executeTask ag task ctx' d)) = db_toolUsage d @
     (case selectTool ag task of
        None \<Rightarrow> []
      | Some tool' \<Rightarrow>
          [usage_row tool' (params_of task) (ctx'\<lparr>c_taskId := Some (t_id task)\<rparr>) d])"
    using row by (cases "selectTool ag task") (simp_all add: executeTask_usage)
  ultimately show ?thesis using ok by blast
qed

theorem tool_usage_recorded_witness:
  "references_task (example_db [example_task ''q'' 0 None])
     (c_taskId (example_context\<lparr>c_taskId := Some ''q''\<rparr>)) \<and>
   task_status_of (example_db [example_task ''q'' 0 None]) (t_id (example_task ''q'' 0 None)) \<noteq>
     None \<and>
   fst (executeTool search_tool (JObj []) (example_context\<lparr>c_taskId := Some ''q''\<rparr>)
     (example_db [example_task ''q'' 0 None])) =
     Inr \<lparr>tr_success = True, tr_data = Some (JObj [(''totalFound'', JNum 0)]),
          tr_error = None\<rparr> \<and>
   db_toolUsage (snd (executeTool search_tool (JObj [])
       (example_context\<lparr>c_taskId := Some ''q''\<rparr>) (example_db [example_task ''q'' 0 None]))) =
     [\<lparr>u_id = ''c'', u_taskId = Some ''q'', u_toolName = ''confluence_search'',
       u_parameters = JObj [], u_result = Some (JObj [(''totalFound'', JNum 0)]),
       u_success = True, u_duration = 25, u_errorMessage = None, u_timestamp = 1025\<rparr>] \<and>
   db_toolUsage (snd (executeTask example_agent (example_task ''q'' 0 None) example_context
       (example_db [example_task ''q'' 0 None]))) =
     [\<lparr>u_id = ''c'', u_taskId = Some ''q'', u_toolName = ''confluence_search'',
       u_parameters = JObj [], u_result = Some (JObj [(''totalFound'', JNum 0)]),
       u_success = True, u_duration = 25, u_errorMessage = None, u_timestamp = 1025\<rparr>]"
proof -
  have ref: "references_task (example_db [example_task ''q'' 0 None])
      (c_taskId (example_context\<lparr>c_taskId := Some ''q''\<rparr>))"
    by (simp add: references_task_def task_status_of_def example_db_def example_task_def)
  have row: "task_status_of (example_db [example_task ''q'' 0 None])
      (t_id (example_task ''q'' 0 None)) \<noteq> None"
    by (simp add: task_status_of_def example_db_def example_task_def)
  from tool_usage_recorded[OF ref row, of search_tool "JObj []" example_agent example_context]
    ref row
  show ?thesis
    by (simp add: usage_row_def search_tool_def example_db_def example_context_def
        example_task_def example_agent_def selectTool_def params_of_def id_of_nat_def)
qed



section \<open>A registered tool: the Confluence search\<close>

text \<open>
  \<^verbatim>\<open>BaseTool.validateParams\<close>, \<^verbatim>\<open>BaseTool.createResult\<close> (without the metadata) and
  \<^verbatim>\<open>ConfluenceSearchTool.execute\<close>. The body of its \<^verbatim>\<open>try\<close> after the validation
  (the embedding request and the similarity search over the knowledge base) is the
  parameter \<open>search\<close>: the time it takes and the data it finds or the error it
  throws. Every error is caught by the tool and returned as a structured failure. The
  parameters are an object (\<^verbatim>\<open>Record<string, any>\<close>); \<open>has_param\<close> is the test
  \<^verbatim>\<open>param in params\<close> together with the two comparisons against \<^verbatim>\<open>undefined\<close> and
  \<^verbatim>\<open>null\<close>.
\<close>

definition has_param :: "json \<Rightarrow> string \<Rightarrow> bool" where
  "has_param params param =
     (case params of
        JObj entries \<Rightarrow>
          (case map_of entries param of None \<Rightarrow> False | Some JNull \<Rightarrow> False | Some v \<Rightarrow> True)
      | _ \<Rightarrow> False)"

definition validateParams :: "json \<Rightarrow> string list \<Rightarrow> error + unit" where
  "validateParams params required =
     (case find (\<lambda>param. \<not> has_param params param) required of
        None \<Rightarrow> Inr ()
      | Some param \<Rightarrow> Inl (Error (''Missing required parameter: '' @ param)))"

definition createResult :: "bool \<Rightarrow> json option \<Rightarrow> string option \<Rightarrow> tool_result" where
  "createResult success data err = \<lparr>tr_success = success, tr_data = data, tr_error = err\<rparr>"

definition ConfluenceSearchTool :: "(json \<Rightarrow> nat \<times> (error + json)) \<Rightarrow> tool" where
  "ConfluenceSearchTool search =
     \<lparr>tool_name = ''confluence_search'',
      tool_execute = (\<lambda>params ctx.
        (case validateParams params [''query''] of
           Inl e \<Rightarrow> (0, Inr (createResult False (Some JNull) (Some (message e))))
         | Inr u \<Rightarrow>
             (case search params of
                (ms, Inl e) \<Rightarrow> (ms, Inr (createResult False (Some JNull) (Some (message e))))
              | (ms, Inr found) \<Rightarrow> (ms, Inr (createResult True (Some found) None)))))\<rparr>"

definition confluence_agent :: agent where
  "confluence_agent =
     \<lparr>registry_get = (\<lambda>n. if n = ''confluence_search''
         then Some (ConfluenceSearchTool (\<lambda>params. (25, Inr (JObj [(''totalFound'', JNum 0)]))))
         else None),
      deepseek_selectTool = (\<lambda>task. Inl (Error ''DeepSeek API error: timeout'')),
      deepseek_generatePlan = (\<lambda>req. Inl (Error ''DeepSeek API error: timeout'')),
      deepseek_assessCompletion = (\<lambda>m r. Inl (Error ''DeepSeek API error: timeout''))\<rparr>"

definition query_task :: task where
  "query_task = example_task ''q'' 0 None"


subsection \<open>Claim C4: a structured tool failure loses its error message\<close>

text \<open>
  C4 says that a failed tool invocation, structured or thrown, leaves the task
  \<^verbatim>\<open>failed\<close>, with its completion time, and with the error message as its result.
  The task \<open>query_task\<close> calls the Confluence search without a \<^verbatim>\<open>query\<close>; the tool
  returns \<^verbatim>\<open>{success: false, data: null, error: 'Missing required parameter: query'}\<close>.
  \<^verbatim>\<open>executeTask\<close> marks the task failed and stamps it, but stores \<^verbatim>\<open>result.data\<close>,
  that is \<^verbatim>\<open>null\<close>, as the result: the error message is not persisted on the task.
\<close>

theorem structured_failure_drops_error:
  "fst (executeTask confluence_agent query_task example_context (example_db [query_task])) =
     Inr \<lparr>tr_success = False, tr_data = Some JNull,
          tr_error = Some ''Missing required parameter: query''\<rparr> \<and>
   db_tasks (snd (executeTask confluence_agent query_task example_context
       (example_db [query_task]))) =
     [query_task\<lparr>t_status := TaskFailed, t_startedAt := Some 1000, t_completedAt := Some 1000,
        t_result := Some JNull\<rparr>]"
  by (simp add: executeTask_def executeTool_def selectTool_def confluence_agent_def
      query_task_def example_task_def example_db_def example_context_def
      ConfluenceSearchTool_def validateParams_def has_param_def createResult_def
      insert_toolUsage_def createId_def update_tasks_where_id_def Let_def
      executeTool_catch_def references_task_def task_status_of_def)


section \<open>Facts about the Plan Executor\<close>

text \<open>
  \<open>task_succeeds\<close>: the tool call of a task succeeds, that is, a tool is selected
  and returns a result whose \<^verbatim>\<open>success\<close> flag is set. \<open>task_completes\<close>: running
  the task from the store \<open>d\<close> ends in success; for this the task also needs its row,
  to which the tool usage row refers.
\<close>

definition task_succeeds :: "agent \<Rightarrow> task \<Rightarrow> exec_context \<Rightarrow> bool" where
  "task_succeeds ag task ctx =
     (case selectTool ag task of
        None \<Rightarrow> False
      | Some tool \<Rightarrow>
          (case snd (tool_execute tool (params_of task) (ctx\<lparr>c_taskId := Some (t_id task)\<rparr>)) of
             Inl err \<Rightarrow> False
           | Inr result \<Rightarrow> tr_success result))"

definition task_completes :: "agent \<Rightarrow> task \<Rightarrow> exec_context \<Rightarrow> db \<Rightarrow> bool" where
  "task_completes ag task ctx d \<longleftrightarrow>
     task_succeeds ag task ctx \<and> task_status_of d (t_id task) \<noteq> None"

definition new_usage :: "db \<Rightarrow> db \<Rightarrow> tool_usage list" where
  "new_usage d d' = drop (length (db_toolUsage d)) (db_toolUsage d')"

definition tasks_evolve :: "string set \<Rightarrow> db \<Rightarrow> db \<Rightarrow> bool" where
  "tasks_evolve S d d' \<longleftrightarrow>
     (\<exists>h. db_tasks d' = map h (db_tasks d) \<and>
        (\<forall>r. t_id (h r) = t_id r \<and> t_planId (h r) = t_planId r \<and> (t_id r \<notin> S \<longrightarrow> h r = r)))"

lemma tasks_evolve_refl: "tasks_evolve S d d"
  unfolding tasks_evolve_def by (intro exI[of _ "\<lambda>r. r"]) simp

lemma tasks_evolve_trans:
  assumes "tasks_evolve S d d'" "tasks_evolve S' d' d''"
  shows "tasks_evolve (S \<union> S') d d''"
proof -
  from assms(1) obtain h where h: "db_tasks d' = map h (db_tasks d)"
    "\<And>r. t_id (h r) = t_id r" "\<And>r. t_planId (h r) = t_planId r"
    "\<And>r. t_id r \<notin> S \<Longrightarrow> h r = r"
    unfolding tasks_evolve_def by blast
  from assms(2) obtain k where k: "db_tasks d'' = map k (db_tasks d')"
    "\<And>r. t_id (k r) = t_id r" "\<And>r. t_planId (k r) = t_planId r"
    "\<And>r. t_id r \<notin> S' \<Longrightarrow> k r = r"
    unfolding tasks_evolve_def by blast
  have "db_tasks d'' = map (k \<circ> h) (db_tasks d)" using h(1) k(1) by simp
  moreover have "\<forall>r. t_id ((k \<circ> h) r) = t_id r \<and> t_planId ((k \<circ> h) r) = t_planId r \<and>
      (t_id r \<notin> S \<union> S' \<longrightarrow> (k \<circ> h) r = r)"
    using h(2-4) k(2-4) by simp
  ultimately show ?thesis unfolding tasks_evolve_def by blast
qed

lemma tasks_evolve_mono: "tasks_evolve S d d' \<Longrightarrow> S \<subseteq> S' \<Longrightarrow> tasks_evolve S' d d'"
  unfolding tasks_evolve_def by blast

lemma tasks_evolve_find:
  assumes "tasks_evolve S d d'" "i \<notin> S"
  shows "find (\<lambda>r. t_id r = i) (db_tasks d') = find (\<lambda>r. t_id r = i) (db_tasks d)"
proof -
  from assms(1) obtain h where h: "db_tasks d' = map h (db_tasks d)"
    "\<And>r. t_id (h r) = t_id r" "\<And>r. t_id r \<notin> S \<Longrightarrow> h r = r"
    unfolding tasks_evolve_def by blast
  have "find (\<lambda>r. t_id r = i) (db_tasks d') = map_option h (find (\<lambda>r. t_id r = i) (db_tasks d))"
    unfolding h(1) by (rule find_id_map) (rule h(2))
  also have "\<dots> = find (\<lambda>r. t_id r = i) (db_tasks d)"
  proof (cases "find (\<lambda>r. t_id r = i) (db_tasks d)")
    case None
    then show ?thesis by simp
  next
    case (Some r)
    then have "t_id r = i" by (auto simp: find_Some_iff)
    with assms(2) h(3) have "h r = r" by blast
    with Some show ?thesis by simp
  qed
  finally show ?thesis .
qed

lemma tasks_evolve_row_iff:
  assumes "tasks_evolve S d d'"
  shows "(task_status_of d' i = None) = (task_status_of d i = None)"
proof -
  from assms obtain h where h: "db_tasks d' = map h (db_tasks d)"
    "\<And>r. t_id (h r) = t_id r"
    unfolding tasks_evolve_def by blast
  have "find (\<lambda>r. t_id r = i) (db_tasks d') = map_option h (find (\<lambda>r. t_id r = i) (db_tasks d))"
    unfolding h(1) by (rule find_id_map) (rule h(2))
  then show ?thesis by (simp add: task_status_of_def)
qed

definition all_rows :: "db \<Rightarrow> string \<Rightarrow> (task \<Rightarrow> bool) \<Rightarrow> bool" where
  "all_rows d i P \<longleftrightarrow> list_all (\<lambda>r. t_id r \<noteq> i \<or> P r) (db_tasks d)"

lemma tasks_evolve_all_rows:
  assumes "tasks_evolve S d d'" "i \<notin> S" "all_rows d i P"
  shows "all_rows d' i P"
proof -
  from assms(1) obtain h where h: "db_tasks d' = map h (db_tasks d)"
    "\<And>r. t_id (h r) = t_id r" "\<And>r. t_id r \<notin> S \<Longrightarrow> h r = r"
    unfolding tasks_evolve_def by blast
  have "t_id (h r) \<noteq> i \<or> P (h r)" if "r \<in> set (db_tasks d)" for r
  proof (cases "t_id r = i")
    case True
    with assms(2) h(3) have "h r = r" by blast
    moreover from assms(3) that True have "P r" unfolding all_rows_def list_all_iff by blast
    ultimately show ?thesis by simp
  next
    case False
    with h(2) show ?thesis by simp
  qed
  then show ?thesis unfolding all_rows_def h(1) list_all_iff by auto
qed


text \<open>The row of a task after \<^verbatim>\<open>executeTask\<close> has run it from the store \<open>d\<close>.\<close>

definition task_final :: "agent \<Rightarrow> task \<Rightarrow> exec_context \<Rightarrow> db \<Rightarrow> task \<Rightarrow> task" where
  "task_final ag task ctx d r =
     (case selectTool ag task of
        None \<Rightarrow>
          r\<lparr>t_status := TaskFailed, t_startedAt := Some (db_clock d),
            t_completedAt := Some (db_clock d),
            t_result := Some (JObj [(''error'',
              JStr (''No suitable tool found for task: '' @ t_title task))])\<rparr>
      | Some tool \<Rightarrow>
          (case tool_execute tool (params_of task) (ctx\<lparr>c_taskId := Some (t_id task)\<rparr>) of
             (elapsed, Inl err) \<Rightarrow>
               r\<lparr>t_status := TaskFailed, t_startedAt := Some (db_clock d),
                 t_completedAt := Some (db_clock d + elapsed),
                 t_result := Some (JObj [(''error'', JStr (message err))])\<rparr>
           | (elapsed, Inr result) \<Rightarrow>
               r\<lparr>t_status := (if tr_success result then TaskCompleted else TaskFailed),
                 t_startedAt := Some (db_clock d),
                 t_completedAt := Some (db_clock d + elapsed),
                 t_result := (case tr_data result of None \<Rightarrow> t_result r | Some v \<Rightarrow> Some v)\<rparr>))"

lemma map_update_twice:
  "map (\<lambda>r. if t_id r = i then g r else r) (map (\<lambda>r. if t_id r = i then f r else r) rows) =
     map (\<lambda>r. if t_id r = i then (if t_id (f r) = i then g (f r) else f r) else r) rows"
  by (induction rows) auto

lemma executeTask_tasks:
  "db_tasks (snd (executeTask ag task ctx d)) =
     map (\<lambda>r. if t_id r = t_id task then task_final ag task ctx d r else r) (db_tasks d)"
proof (cases "task_status_of d (t_id task) = None")
  case True
  let ?d1 = "update_tasks_where_id (t_id task)
                 (\<lambda>r. r\<lparr>t_status := TaskInProgress, t_startedAt := Some (db_clock d)\<rparr>) d"
  let ?c = "ctx\<lparr>c_taskId := Some (t_id task)\<rparr>"
  have "db_tasks (snd (executeTask ag task ctx d)) = db_tasks d"
  proof (cases "selectTool ag task")
    case None
    then show ?thesis
      by (simp add: executeTask_def task_failed_def update_tasks_tasks map_update_twice
          no_row_update[OF True])
  next
    case (Some tool)
    obtain r d2 where e: "executeTool tool (params_of task) ?c ?d1 = (r, d2)" by force
    from executeTool_frame(3)[of tool "params_of task" ?c ?d1] e
    have t2: "db_tasks d2 = db_tasks ?d1" by simp
    from Some e t2 show ?thesis
      by (cases r)
        (simp_all add: executeTask_def task_failed_def update_tasks_tasks map_update_twice
          no_row_update[OF True] params_of_def Let_def)
  qed
  then show ?thesis by (simp add: no_row_update[OF True])
next
  case row: False
  show ?thesis
  proof (cases "selectTool ag task")
    case None
    then show ?thesis
      by (simp add: executeTask_def task_failed_def task_final_def update_tasks_tasks
          map_update_twice cong: if_cong)
  next
    case (Some tool)
    let ?d1 = "update_tasks_where_id (t_id task)
                   (\<lambda>r. r\<lparr>t_status := TaskInProgress, t_startedAt := Some (db_clock d)\<rparr>) d"
    let ?c = "ctx\<lparr>c_taskId := Some (t_id task)\<rparr>"
    obtain elapsed outcome where o: "tool_execute tool (params_of task) ?c = (elapsed, outcome)"
      by force
    obtain r d2 where e: "executeTool tool (params_of task) ?c ?d1 = (r, d2)" by force
    from row have "references_task ?d1 (c_taskId ?c)" by (simp add: executeTask_reference)
    from executeTool_ok(1)[OF this, of tool "params_of task"] e o have r: "r = outcome" by simp
    from executeTool_frame(3)[of tool "params_of task" ?c ?d1] e
    have t2: "db_tasks d2 = db_tasks ?d1" by simp
    from executeTool_frame(4)[of tool "params_of task" ?c ?d1] e o
    have c2: "db_clock d2 = db_clock d + elapsed" by simp
    show ?thesis
    proof (cases outcome)
      case (Inl err)
      with Some e r t2 c2 o show ?thesis
        by (simp add: executeTask_def task_failed_def task_final_def update_tasks_tasks
            map_update_twice params_of_def cong: if_cong)
    next
      case (Inr result)
      with Some e r t2 c2 o show ?thesis
        by (cases "tr_data result")
          (simp_all add: executeTask_def task_final_def update_tasks_tasks
            map_update_twice params_of_def Let_def cong: if_cong)
    qed
  qed
qed

lemma task_final_id [simp]:
  "t_id (task_final ag task ctx d r) = t_id r"
  "t_planId (task_final ag task ctx d r) = t_planId r"
  by (simp_all add: task_final_def split: option.splits prod.splits sum.splits)

lemma task_final_status:
  "t_status (task_final ag task ctx d r) =
     (if task_succeeds ag task ctx then TaskCompleted else TaskFailed)"
  by (simp add: task_final_def task_succeeds_def split: option.splits prod.splits sum.splits)

text \<open>
  The two ways a tool invocation fails: a thrown error is stored as the task's result,
  a structured failure stores the \<^verbatim>\<open>data\<close> of the returned result.
\<close>

lemma task_final_thrown:
  assumes "selectTool ag task = Some tool"
    "tool_execute tool (params_of task) (ctx\<lparr>c_taskId := Some (t_id task)\<rparr>) =
       (elapsed, Inl err)"
  shows "task_final ag task ctx d r =
     r\<lparr>t_status := TaskFailed, t_startedAt := Some (db_clock d),
       t_completedAt := Some (db_clock d + elapsed),
       t_result := Some (JObj [(''error'', JStr (message err))])\<rparr>"
  using assms by (simp add: task_final_def)

lemma task_final_structured_failure:
  assumes "selectTool ag task = Some tool"
    "tool_execute tool (params_of task) (ctx\<lparr>c_taskId := Some (t_id task)\<rparr>) =
       (elapsed, Inr result)" "\<not> tr_success result"
  shows "task_final ag task ctx d r =
     r\<lparr>t_status := TaskFailed, t_startedAt := Some (db_clock d),
       t_completedAt := Some (db_clock d + elapsed),
       t_result := (case tr_data result of None \<Rightarrow> t_result r | Some v \<Rightarrow> Some v)\<rparr>"
  using assms by (simp add: task_final_def)

lemma executeTask_evolve: "tasks_evolve {t_id task} d (snd (executeTask ag task ctx d))"
  unfolding tasks_evolve_def executeTask_tasks
  by (intro exI[of _ "\<lambda>r. if t_id r = t_id task then task_final ag task ctx d r else r"]) simp

lemma executeTask_status:
  "all_rows (snd (executeTask ag task ctx d)) (t_id task)
     (\<lambda>r. t_status r = (if task_succeeds ag task ctx then TaskCompleted else TaskFailed))"
  unfolding all_rows_def executeTask_tasks list_all_iff
  by (auto simp: task_final_status)

lemma executeTask_success:
  "(case fst (executeTask ag task ctx d) of Inl err \<Rightarrow> False | Inr result \<Rightarrow> tr_success result) =
     task_completes ag task ctx d"
proof (cases "selectTool ag task")
  case None
  then show ?thesis
    by (simp add: executeTask_def task_failed_def task_succeeds_def task_completes_def)
next
  case (Some tool)
  show ?thesis
    unfolding executeTask_outcome[OF Some]
    by (cases "task_status_of d (t_id task)")
      (simp_all add: task_completes_def task_succeeds_def Some foreign_key_error_def)
qed

lemma executeTask_frame [simp]:
  "db_plans (snd (executeTask ag task ctx d)) = db_plans d"
  "db_missions (snd (executeTask ag task ctx d)) = db_missions d"
proof -
  let ?d1 = "update_tasks_where_id (t_id task)
                 (\<lambda>r. r\<lparr>t_status := TaskInProgress, t_startedAt := Some (db_clock d)\<rparr>) d"
  let ?c = "ctx\<lparr>c_taskId := Some (t_id task)\<rparr>"
  have "db_plans (snd (executeTask ag task ctx d)) = db_plans d \<and>
        db_missions (snd (executeTask ag task ctx d)) = db_missions d"
  proof (cases "selectTool ag task")
    case None
    then show ?thesis by (simp add: executeTask_def task_failed_def)
  next
    case (Some tool)
    obtain r d2 where e: "executeTool tool (params_of task) ?c ?d1 = (r, d2)" by force
    from executeTool_frame(1,2)[of tool "params_of task" ?c ?d1] e
    have "db_plans d2 = db_plans d" "db_missions d2 = db_missions d" by simp_all
    with Some e show ?thesis
      by (cases r) (simp_all add: executeTask_def task_failed_def params_of_def Let_def)
  qed
  then show "db_plans (snd (executeTask ag task ctx d)) = db_plans d"
    and "db_missions (snd (executeTask ag task ctx d)) = db_missions d" by simp_all
qed

definition skipped :: "plan \<Rightarrow> task \<Rightarrow> db \<Rightarrow> bool" where
  "skipped plan task d \<longleftrightarrow> deps_of task \<noteq> [] \<and> incompleteDeps plan task d \<noteq> []"

lemma run_tasks_Cons:
  "run_tasks ag plan ctx (task # rest) c f d =
     (if skipped plan task d then run_tasks ag plan ctx rest c f d
      else if task_completes ag task ctx d
        then run_tasks ag plan ctx rest (c @ [task]) f (snd (executeTask ag task ctx d))
        else run_tasks ag plan ctx rest c (f @ [task]) (snd (executeTask ag task ctx d)))"
proof -
  obtain r d' where e: "executeTask ag task ctx d = (r, d')" by force
  from executeTask_success[of ag task ctx d] e
  have s: "task_completes ag task ctx d =
      (case r of Inl err \<Rightarrow> False | Inr result \<Rightarrow> tr_success result)"
    by simp
  show ?thesis
    by (cases r) (simp_all add: skipped_def e s)
qed

declare run_tasks.simps(2) [simp del]

lemma run_tasks_evolve:
  "tasks_evolve (t_id ` set ts) d (snd (run_tasks ag plan ctx ts c f d))"
proof (induction ts arbitrary: c f d)
  case Nil
  show ?case by (simp add: tasks_evolve_refl)
next
  case (Cons task rest)
  let ?d1 = "snd (executeTask ag task ctx d)"
  have sub: "t_id ` set rest \<subseteq> t_id ` set (task # rest)" by auto
  have un: "{t_id task} \<union> t_id ` set rest \<subseteq> t_id ` set (task # rest)" by auto
  show ?case
  proof (cases "skipped plan task d")
    case True
    with tasks_evolve_mono[OF Cons.IH sub] show ?thesis by (simp add: run_tasks_Cons)
  next
    case False
    have "tasks_evolve (t_id ` set (task # rest)) d (snd (run_tasks ag plan ctx rest c' f' ?d1))"
      for c' f'
      by (rule tasks_evolve_mono[OF tasks_evolve_trans[OF executeTask_evolve Cons.IH] un])
    with False show ?thesis by (simp add: run_tasks_Cons)
  qed
qed

lemma run_tasks_frame [simp]:
  "db_plans (snd (run_tasks ag plan ctx ts c f d)) = db_plans d"
  "db_missions (snd (run_tasks ag plan ctx ts c f d)) = db_missions d"
  by (induction ts arbitrary: c f d) (simp_all add: run_tasks_Cons)

lemma run_tasks_failed_grows:
  "\<exists>g. snd (fst (run_tasks ag plan ctx ts c f d)) = f @ g"
proof (induction ts arbitrary: c f d)
  case Nil
  show ?case by simp
next
  case (Cons task rest)
  from Cons.IH[of c f d] Cons.IH[of "c @ [task]" f "snd (executeTask ag task ctx d)"]
    Cons.IH[of c "f @ [task]" "snd (executeTask ag task ctx d)"]
  show ?case by (auto simp: run_tasks_Cons)
qed

lemma run_tasks_failed_nonempty:
  "f \<noteq> [] \<Longrightarrow> snd (fst (run_tasks ag plan ctx ts c f d)) \<noteq> []"
  using run_tasks_failed_grows[of ag plan ctx ts c f d] by auto

lemma executeTask_new_usage:
  "\<exists>new. db_toolUsage (snd (executeTask ag task ctx d)) = db_toolUsage d @ new \<and>
     (\<forall>u \<in> set new. u_taskId u = Some (t_id task) \<and> u_success u = task_succeeds ag task ctx \<and>
        task_status_of d (t_id task) \<noteq> None)"
proof (cases "selectTool ag task")
  case None
  then show ?thesis by (simp add: executeTask_usage)
next
  case (Some tool)
  then show ?thesis
    by (simp add: executeTask_usage usage_row_def task_succeeds_def params_of_def
        split: prod.splits sum.splits)
qed

lemma run_tasks_new_usage:
  "\<exists>new. db_toolUsage (snd (run_tasks ag plan ctx ts c f d)) = db_toolUsage d @ new \<and>
     (\<forall>u \<in> set new. \<exists>task \<in> set ts. u_taskId u = Some (t_id task))"
proof (induction ts arbitrary: c f d)
  case Nil
  show ?case by simp
next
  case (Cons task rest)
  let ?d1 = "snd (executeTask ag task ctx d)"
  show ?case
  proof (cases "skipped plan task d")
    case True
    from Cons.IH[of c f d] True show ?thesis by (auto simp: run_tasks_Cons)
  next
    case False
    from executeTask_new_usage[of ag task ctx d] obtain n1 where
      n1: "db_toolUsage ?d1 = db_toolUsage d @ n1" "\<forall>u \<in> set n1. u_taskId u = Some (t_id task)"
      by blast
    have "\<exists>new. db_toolUsage (snd (run_tasks ag plan ctx rest c' f' ?d1)) = db_toolUsage d @ new \<and>
       (\<forall>u \<in> set new. \<exists>t \<in> set (task # rest). u_taskId u = Some (t_id t))" for c' f'
    proof -
      from Cons.IH[of c' f' ?d1] obtain n2 where
        n2: "db_toolUsage (snd (run_tasks ag plan ctx rest c' f' ?d1)) = db_toolUsage ?d1 @ n2"
        "\<forall>u \<in> set n2. \<exists>t \<in> set rest. u_taskId u = Some (t_id t)" by blast
      from n1 n2 have "db_toolUsage (snd (run_tasks ag plan ctx rest c' f' ?d1)) =
          db_toolUsage d @ (n1 @ n2)" by simp
      moreover from n1(2) n2(2)
      have "\<forall>u \<in> set (n1 @ n2). \<exists>t \<in> set (task # rest). u_taskId u = Some (t_id t)" by auto
      ultimately show ?thesis by blast
    qed
    with False show ?thesis by (simp add: run_tasks_Cons)
  qed
qed


section \<open>Plans of independent tasks\<close>

lemma visit_no_deps:
  assumes "deps_of task = []" "t_id task \<notin> visiting st" "t_id task \<notin> visited st"
  shows "visit tasks task st =
           Inr (st\<lparr>visiting := visiting st, visited := insert (t_id task) (visited st),
                  sorted' := sorted' st @ [task]\<rparr>)"
  using assms by (simp add: visit.simps)

lemma visit_all_no_deps:
  assumes "\<forall>t \<in> set xs. deps_of t = []" "distinct (map t_id xs)"
    "visiting st = {}" "visited st \<inter> t_id ` set xs = {}"
  shows "\<exists>st'. visit_all tasks xs st = Inr st' \<and> sorted' st' = sorted' st @ xs"
  using assms
proof (induction xs arbitrary: st)
  case Nil
  then show ?case by simp
next
  case (Cons x xs)
  let ?st1 = "st\<lparr>visiting := visiting st, visited := insert (t_id x) (visited st),
                  sorted' := sorted' st @ [x]\<rparr>"
  from Cons.prems have v: "visit tasks x st = Inr ?st1"
    by (intro visit_no_deps) auto
  from Cons.prems have "\<forall>t \<in> set xs. deps_of t = []" "distinct (map t_id xs)"
    "visiting ?st1 = {}" "visited ?st1 \<inter> t_id ` set xs = {}"
    by auto
  from Cons.IH[OF this] obtain st' where
    "visit_all tasks xs ?st1 = Inr st'" "sorted' st' = sorted' ?st1 @ xs" by blast
  with v show ?case by simp
qed

lemma distinct_ids_sort_key:
  "distinct (map t_id (sort_key t_priority tasks)) = distinct (map t_id tasks)"
proof -
  have "mset (map t_id (sort_key t_priority tasks)) = mset (map t_id tasks)" by simp
  then show ?thesis by (rule mset_eq_imp_distinct_iff)
qed

lemma sort_independent:
  assumes "distinct (map t_id tasks)" "\<forall>t \<in> set tasks. deps_of t = []"
  shows "sortTasksByPriorityAndDependencies tasks = Inr (sort_key t_priority tasks)"
proof -
  let ?st0 = "\<lparr>sorted' = [], visited = {}, visiting = {}\<rparr>"
  from assms have "\<forall>t \<in> set (sort_key t_priority tasks). deps_of t = []"
    "distinct (map t_id (sort_key t_priority tasks))"
    by (simp_all add: distinct_ids_sort_key)
  from visit_all_no_deps[OF this, of ?st0 tasks] obtain st' where
    "visit_all tasks (sort_key t_priority tasks) ?st0 = Inr st'"
    "sorted' st' = sort_key t_priority tasks" by auto
  then show ?thesis by (simp add: sortTasksByPriorityAndDependencies_def)
qed

lemma run_tasks_independent:
  assumes "\<forall>t \<in> set ts. deps_of t = []" "\<forall>t \<in> set ts. task_status_of d (t_id t) \<noteq> None"
  shows "fst (run_tasks ag plan ctx ts c f d) =
           (c @ filter (\<lambda>t. task_succeeds ag t ctx) ts,
            f @ filter (\<lambda>t. \<not> task_succeeds ag t ctx) ts)"
  using assms
proof (induction ts arbitrary: c f d)
  case Nil
  show ?case by simp
next
  case (Cons task rest)
  let ?d1 = "snd (executeTask ag task ctx d)"
  from Cons.prems have ns: "\<not> skipped plan task d" and r: "\<forall>t \<in> set rest. deps_of t = []"
    and row: "task_status_of d (t_id task) \<noteq> None"
    by (simp_all add: skipped_def)
  from Cons.prems(2) have rows: "\<forall>t \<in> set rest. task_status_of ?d1 (t_id t) \<noteq> None"
    by (simp add: tasks_evolve_row_iff[OF executeTask_evolve])
  from row have "task_completes ag task ctx d = task_succeeds ag task ctx"
    by (simp add: task_completes_def)
  with Cons.IH[OF r rows] ns show ?case by (simp add: run_tasks_Cons)
qed

lemma executeTask_success_usage:
  assumes "task_completes ag task ctx d"
  shows "\<exists>u. db_toolUsage (snd (executeTask ag task ctx d)) = db_toolUsage d @ [u] \<and>
           u_taskId u = Some (t_id task) \<and> u_success u"
proof (cases "selectTool ag task")
  case None
  with assms show ?thesis by (simp add: task_completes_def task_succeeds_def)
next
  case (Some tool)
  from assms have ok: "task_succeeds ag task ctx"
    and row: "task_status_of d (t_id task) \<noteq> None" by (simp_all add: task_completes_def)
  obtain elapsed outcome where
    o: "tool_execute tool (params_of task) (ctx\<lparr>c_taskId := Some (t_id task)\<rparr>) =
          (elapsed, outcome)" by force
  with ok Some obtain result where "outcome = Inr result" "tr_success result"
    by (cases outcome) (simp_all add: task_succeeds_def)
  with Some o row show ?thesis
    by (auto simp: executeTask_usage usage_row_def)
qed

lemma run_tasks_success_usage:
  assumes "\<forall>t \<in> set ts. deps_of t = [] \<and> task_succeeds ag t ctx"
    "\<forall>t \<in> set ts. task_status_of d (t_id t) \<noteq> None"
  shows "map u_taskId (new_usage d (snd (run_tasks ag plan ctx ts c f d))) =
           map (\<lambda>t. Some (t_id t)) ts \<and>
         length (db_toolUsage d) \<le> length (db_toolUsage (snd (run_tasks ag plan ctx ts c f d)))"
  using assms
proof (induction ts arbitrary: c f d)
  case Nil
  show ?case by (simp add: new_usage_def)
next
  case (Cons task rest)
  let ?d1 = "snd (executeTask ag task ctx d)"
  let ?d2 = "snd (run_tasks ag plan ctx rest (c @ [task]) f ?d1)"
  from Cons.prems have ns: "\<not> skipped plan task d" and ok: "task_completes ag task ctx d"
    and r: "\<forall>t \<in> set rest. deps_of t = [] \<and> task_succeeds ag t ctx"
    by (simp_all add: skipped_def task_completes_def)
  from Cons.prems(2) have rows: "\<forall>t \<in> set rest. task_status_of ?d1 (t_id t) \<noteq> None"
    by (simp add: tasks_evolve_row_iff[OF executeTask_evolve])
  from executeTask_success_usage[OF ok] obtain u where
    u: "db_toolUsage ?d1 = db_toolUsage d @ [u]" "u_taskId u = Some (t_id task)" by blast
  from Cons.IH[OF r rows, where c = "c @ [task]" and f = f]
  have ih: "map u_taskId (new_usage ?d1 ?d2) = map (\<lambda>t. Some (t_id t)) rest"
    and le: "length (db_toolUsage ?d1) \<le> length (db_toolUsage ?d2)" by simp_all
  from run_tasks_new_usage[of ag plan ctx rest "c @ [task]" f ?d1] obtain n2 where
    n2: "db_toolUsage ?d2 = db_toolUsage ?d1 @ n2" by blast
  from n2 u have "new_usage d ?d2 = u # new_usage ?d1 ?d2" by (simp add: new_usage_def)
  with ih u(2) have "map u_taskId (new_usage d ?d2) = map (\<lambda>t. Some (t_id t)) (task # rest)"
    by simp
  moreover from le u(1) have "length (db_toolUsage d) \<le> length (db_toolUsage ?d2)" by simp
  ultimately show ?case using ns ok by (simp add: run_tasks_Cons)
qed

lemma task_status_of_cong:
  "db_tasks d' = db_tasks d \<Longrightarrow> task_status_of d' i = task_status_of d i"
  by (simp add: task_status_of_def)

lemma find_plan_update:
  "find (\<lambda>r. p_id r = i) (map (\<lambda>r. if p_id r = i then r\<lparr>p_status := s\<rparr> else r) rows) =
     map_option (\<lambda>r. r\<lparr>p_status := s\<rparr>) (find (\<lambda>r. p_id r = i) rows)"
  by (induction rows) auto

lemma plan_status_of_set:
  "plan_status_of d i \<noteq> None \<Longrightarrow> plan_status_of (set_plan_status i s d) i = Some s"
  unfolding plan_status_of_def set_plan_status_plans find_plan_update
  by (cases "find (\<lambda>r. p_id r = i) (db_plans d)") simp_all


lemma plan_status_of_cong:
  "db_plans d' = db_plans d \<Longrightarrow> plan_status_of d' i = plan_status_of d i"
  by (simp add: plan_status_of_def)

lemma executePlan_sorted:
  assumes "sortTasksByPriorityAndDependencies (p_tasks plan) = Inr sortedTasks"
  shows "executePlan ag plan ctx d =
     (let r = run_tasks ag plan ctx sortedTasks [] [] (set_plan_status (p_id plan) PlanActive d)
      in (\<lparr>er_success = (snd (fst r) = []), er_completedTasks = fst (fst r),
            er_failedTasks = snd (fst r), er_reflections = [], er_error = None\<rparr>,
          set_plan_status (p_id plan)
            (if snd (fst r) = [] then PlanCompleted else PlanFailed) (snd r)))"
  using assms by (simp add: executePlan_def Let_def split: prod.splits)


text \<open>Three independent tasks with the priorities 2, 0 and 1.\<close>

definition three_tasks :: "task list" where
  "three_tasks =
     [example_task ''first'' 2 None, example_task ''second'' 0 None,
      example_task ''third'' 1 (Some [])]"

lemma three_tasks_hyps:
  "distinct (map t_id (p_tasks (example_plan three_tasks)))"
  "\<forall>t \<in> set (p_tasks (example_plan three_tasks)). deps_of t = []"
  "plan_status_of (example_db three_tasks) (p_id (example_plan three_tasks)) \<noteq> None"
  "\<forall>t \<in> set (p_tasks (example_plan three_tasks)).
     task_status_of (example_db three_tasks) (t_id t) \<noteq> None"
  "\<forall>t \<in> set (p_tasks (example_plan three_tasks)).
     task_succeeds example_agent t example_context"
  by (simp_all add: example_plan_def three_tasks_def example_task_def example_db_def
      deps_of_def plan_status_of_def task_status_of_def task_succeeds_def selectTool_def
      example_agent_def search_tool_def)


subsection \<open>Claim C9: independent tasks run in ascending priority order\<close>

text \<open>
  C9. For every plan (with pairwise distinct task ids, and with its row and the rows of
  its tasks in the store) whose tasks all have an empty dependency list, the sorter
  returns the tasks in
  ascending order of \<^verbatim>\<open>priority\<close> (ties in input order), and \<^verbatim>\<open>executePlan\<close> runs
  every task in that order: the completed tasks are the tasks of that sequence whose
  run succeeds and the failed tasks are the others, both in that order. If every task's
  tool call succeeds, the completed tasks are exactly the priority-sorted sequence, the
  tool usage rows written by the run name the tasks in that order, the result reports
  success and the plan's final status is \<^verbatim>\<open>completed\<close>.
\<close>

theorem independent_tasks_priority_order:
  assumes dist: "distinct (map t_id (p_tasks plan))"
    and indep: "\<forall>t \<in> set (p_tasks plan). deps_of t = []"
    and row: "plan_status_of d (p_id plan) \<noteq> None"
    and rows: "\<forall>t \<in> set (p_tasks plan). task_status_of d (t_id t) \<noteq> None"
  shows "sortTasksByPriorityAndDependencies (p_tasks plan) =
           Inr (sort_key t_priority (p_tasks plan)) \<and>
         er_completedTasks (fst (executePlan ag plan ctx d)) =
           filter (\<lambda>t. task_succeeds ag t ctx) (sort_key t_priority (p_tasks plan)) \<and>
         er_failedTasks (fst (executePlan ag plan ctx d)) =
           filter (\<lambda>t. \<not> task_succeeds ag t ctx) (sort_key t_priority (p_tasks plan)) \<and>
         ((\<forall>t \<in> set (p_tasks plan). task_succeeds ag t ctx) \<longrightarrow>
            er_completedTasks (fst (executePlan ag plan ctx d)) =
              sort_key t_priority (p_tasks plan) \<and>
            sorted (map t_priority (er_completedTasks (fst (executePlan ag plan ctx d)))) \<and>
            map u_taskId (new_usage d (snd (executePlan ag plan ctx d))) =
              map (\<lambda>t. Some (t_id t)) (sort_key t_priority (p_tasks plan)) \<and>
            er_success (fst (executePlan ag plan ctx d)) \<and>
            plan_status_of (snd (executePlan ag plan ctx d)) (p_id plan) = Some PlanCompleted)"
proof -
  let ?ts = "sort_key t_priority (p_tasks plan)"
  let ?d1 = "set_plan_status (p_id plan) PlanActive d"
  let ?r = "run_tasks ag plan ctx ?ts [] [] ?d1"
  note s = sort_independent[OF dist indep]
  note e = executePlan_sorted[OF s, of ag ctx d]
  from indep have i': "\<forall>t \<in> set ?ts. deps_of t = []" by simp
  from rows have rows': "\<forall>t \<in> set ?ts. task_status_of ?d1 (t_id t) \<noteq> None"
    by (simp add: task_status_of_cong[of ?d1 d])
  note f = run_tasks_independent[OF i' rows', of ag plan ctx "[]" "[]"]
  have c: "er_completedTasks (fst (executePlan ag plan ctx d)) =
      filter (\<lambda>t. task_succeeds ag t ctx) ?ts"
    and fl: "er_failedTasks (fst (executePlan ag plan ctx d)) =
      filter (\<lambda>t. \<not> task_succeeds ag t ctx) ?ts"
    unfolding e by (simp_all add: Let_def f)
  have all: "er_completedTasks (fst (executePlan ag plan ctx d)) = ?ts \<and>
      sorted (map t_priority (er_completedTasks (fst (executePlan ag plan ctx d)))) \<and>
      map u_taskId (new_usage d (snd (executePlan ag plan ctx d))) =
        map (\<lambda>t. Some (t_id t)) ?ts \<and>
      er_success (fst (executePlan ag plan ctx d)) \<and>
      plan_status_of (snd (executePlan ag plan ctx d)) (p_id plan) = Some PlanCompleted"
    if ok: "\<forall>t \<in> set (p_tasks plan). task_succeeds ag t ctx"
  proof -
    from ok have ok': "\<forall>t \<in> set ?ts. task_succeeds ag t ctx" by simp
    then have c': "filter (\<lambda>t. task_succeeds ag t ctx) ?ts = ?ts"
      and f': "filter (\<lambda>t. \<not> task_succeeds ag t ctx) ?ts = []" by simp_all
    from f f' have nf: "snd (fst ?r) = []" by simp
    from i' ok' have "\<forall>t \<in> set ?ts. deps_of t = [] \<and> task_succeeds ag t ctx" by blast
    from run_tasks_success_usage[OF this rows', of plan "[]" "[]"]
    have u: "map u_taskId (new_usage ?d1 (snd ?r)) = map (\<lambda>t. Some (t_id t)) ?ts" by simp
    have "new_usage d (snd (executePlan ag plan ctx d)) = new_usage ?d1 (snd ?r)"
      unfolding e by (simp add: Let_def new_usage_def)
    with u have u': "map u_taskId (new_usage d (snd (executePlan ag plan ctx d))) =
        map (\<lambda>t. Some (t_id t)) ?ts" by simp
    from row have "plan_status_of ?d1 (p_id plan) \<noteq> None" by (simp add: plan_status_of_set)
    then have "plan_status_of (snd ?r) (p_id plan) \<noteq> None"
      by (simp add: plan_status_of_cong[of "snd ?r" ?d1])
    then have st: "plan_status_of (snd (executePlan ag plan ctx d)) (p_id plan) =
        Some PlanCompleted"
      unfolding e by (simp add: Let_def nf plan_status_of_set)
    have su: "er_success (fst (executePlan ag plan ctx d))"
      unfolding e by (simp add: Let_def nf)
    have "sorted (map t_priority ?ts)" by simp
    with c c' u' st su show ?thesis by simp
  qed
  from s c fl all show ?thesis by blast
qed


theorem independent_tasks_priority_order_witness:
  "map t_id (er_completedTasks (fst (executePlan example_agent (example_plan three_tasks)
       example_context (example_db three_tasks)))) = [''second'', ''third'', ''first''] \<and>
   map t_priority (er_completedTasks (fst (executePlan example_agent
       (example_plan three_tasks) example_context (example_db three_tasks)))) = [0, 1, 2] \<and>
   er_failedTasks (fst (executePlan example_agent (example_plan three_tasks)
       example_context (example_db three_tasks))) = [] \<and>
   map u_taskId (new_usage (example_db three_tasks)
       (snd (executePlan example_agent (example_plan three_tasks)
          example_context (example_db three_tasks)))) =
     [Some ''second'', Some ''third'', Some ''first''] \<and>
   plan_status_of (snd (executePlan example_agent (example_plan three_tasks)
       example_context (example_db three_tasks))) ''plan'' = Some PlanCompleted"
proof -
  note t = independent_tasks_priority_order[OF three_tasks_hyps(1-4),
      of example_agent example_context]
  have s: "sort_key t_priority (p_tasks (example_plan three_tasks)) =
      [example_task ''second'' 0 None, example_task ''third'' 1 (Some []),
       example_task ''first'' 2 None]"
    by (simp add: example_plan_def three_tasks_def example_task_def)
  have p: "p_id (example_plan three_tasks) = ''plan''" by (simp add: example_plan_def)
  let ?r = "executePlan example_agent (example_plan three_tasks) example_context
      (example_db three_tasks)"
  from t three_tasks_hyps(5)
  have "er_completedTasks (fst ?r) = sort_key t_priority (p_tasks (example_plan three_tasks))"
    and "er_failedTasks (fst ?r) =
      filter (\<lambda>t. \<not> task_succeeds example_agent t example_context)
        (sort_key t_priority (p_tasks (example_plan three_tasks)))"
    and "map u_taskId (new_usage (example_db three_tasks) (snd ?r)) =
      map (\<lambda>t. Some (t_id t)) (sort_key t_priority (p_tasks (example_plan three_tasks)))"
    and "plan_status_of (snd ?r) (p_id (example_plan three_tasks)) = Some PlanCompleted"
    by blast+
  moreover from three_tasks_hyps(5)
  have "filter (\<lambda>t. \<not> task_succeeds example_agent t example_context)
      (sort_key t_priority (p_tasks (example_plan three_tasks))) = []" by simp
  ultimately show ?thesis
    unfolding s p by (simp add: example_task_def)
qed


section \<open>A failed dependency\<close>

text \<open>
  \<open>not_after a b ts\<close>: in the list \<open>ts\<close> no task with id \<open>a\<close> stands behind a
  task with id \<open>b\<close>. \<open>untouched b\<close> says that a run of the loop neither changes
  the stored row of \<open>b\<close> nor adds a task with id \<open>b\<close> to its result arrays.
\<close>

fun not_after :: "string \<Rightarrow> string \<Rightarrow> task list \<Rightarrow> bool" where
  "not_after a b [] = True"
| "not_after a b (t # ts) = ((t_id t = b \<longrightarrow> a \<notin> t_id ` set ts) \<and> not_after a b ts)"

lemma deps_before_not_after:
  assumes "deps_before ids seen out" "distinct (map t_id out)" "seen \<inter> t_id ` set out = {}"
    "a \<in> ids" "\<forall>t \<in> set out. t_id t = b \<longrightarrow> a \<in> set (deps_of t)"
  shows "not_after a b out"
  using assms
proof (induction out arbitrary: seen)
  case Nil
  show ?case by simp
next
  case (Cons t ts)
  have 1: "t_id t = b \<longrightarrow> a \<notin> t_id ` set ts"
  proof
    assume "t_id t = b"
    with Cons.prems(5) have "a \<in> set (deps_of t)" by simp
    with Cons.prems(1,4) have "a \<in> seen" by simp
    with Cons.prems(3) show "a \<notin> t_id ` set ts" by auto
  qed
  from Cons.prems have "deps_before ids (insert (t_id t) seen) ts" "distinct (map t_id ts)"
    "insert (t_id t) seen \<inter> t_id ` set ts = {}"
    "\<forall>t \<in> set ts. t_id t = b \<longrightarrow> a \<in> set (deps_of t)"
    by auto
  from Cons.IH[OF this(1,2,3) Cons.prems(4) this(4)] 1 show ?case by simp
qed

lemma incomplete_if_not_completed:
  assumes "all_rows d a (\<lambda>r. t_status r \<noteq> TaskCompleted)" "a \<in> set (deps_of task)"
  shows "skipped plan task d"
proof -
  let ?rows = "filter (\<lambda>t. t_planId t = p_id plan) (db_tasks d)"
  from assms(1) have "find (\<lambda>t. t_id t = a \<and> t_status t = TaskCompleted) ?rows = None"
    unfolding all_rows_def list_all_iff find_None_iff by auto
  with assms(2) have "a \<in> set (incompleteDeps plan task d)"
    by (simp add: incompleteDeps_def)
  then have "incompleteDeps plan task d \<noteq> []" by auto
  moreover from assms(2) have "deps_of task \<noteq> []" by auto
  ultimately show ?thesis by (simp add: skipped_def)
qed

lemma run_tasks_results_subset:
  "set (fst (fst (run_tasks ag plan ctx ts c f d))) \<union>
   set (snd (fst (run_tasks ag plan ctx ts c f d))) \<subseteq> set c \<union> set f \<union> set ts"
proof (induction ts arbitrary: c f d)
  case Nil
  show ?case by simp
next
  case (Cons task rest)
  from Cons.IH[of c f d] Cons.IH[of "c @ [task]" f "snd (executeTask ag task ctx d)"]
    Cons.IH[of c "f @ [task]" "snd (executeTask ag task ctx d)"]
  show ?case by (auto simp: run_tasks_Cons)
qed

definition untouched :: "string \<Rightarrow> agent \<Rightarrow> plan \<Rightarrow> exec_context \<Rightarrow> task list \<Rightarrow>
    task list \<Rightarrow> task list \<Rightarrow> db \<Rightarrow> bool" where
  "untouched b ag plan ctx ts c f d \<longleftrightarrow>
     find (\<lambda>r. t_id r = b) (db_tasks (snd (run_tasks ag plan ctx ts c f d))) =
       find (\<lambda>r. t_id r = b) (db_tasks d) \<and>
     (\<forall>t \<in> set (fst (fst (run_tasks ag plan ctx ts c f d))) \<union>
            set (snd (fst (run_tasks ag plan ctx ts c f d))).
        t_id t = b \<longrightarrow> t \<in> set c \<union> set f)"

lemma untouched_absent:
  assumes "b \<notin> t_id ` set ts"
  shows "untouched b ag plan ctx ts c f d"
proof -
  from tasks_evolve_find[OF run_tasks_evolve assms]
  have "find (\<lambda>r. t_id r = b) (db_tasks (snd (run_tasks ag plan ctx ts c f d))) =
       find (\<lambda>r. t_id r = b) (db_tasks d)" .
  moreover from run_tasks_results_subset[of ag plan ctx ts c f d] assms
  have "\<forall>t \<in> set (fst (fst (run_tasks ag plan ctx ts c f d))) \<union>
            set (snd (fst (run_tasks ag plan ctx ts c f d))).
        t_id t = b \<longrightarrow> t \<in> set c \<union> set f" by auto
  ultimately show ?thesis by (simp add: untouched_def)
qed

lemma untouched_step:
  assumes "untouched b ag plan ctx rest c' f' d'" "set c' \<union> set f' \<subseteq> set c \<union> set f \<union> {task}"
    "t_id task \<noteq> b"
    "find (\<lambda>r. t_id r = b) (db_tasks d') = find (\<lambda>r. t_id r = b) (db_tasks d)"
    "run_tasks ag plan ctx (task # rest) c f d = run_tasks ag plan ctx rest c' f' d'"
  shows "untouched b ag plan ctx (task # rest) c f d"
  using assms unfolding untouched_def by auto


lemma executeTask_find_other:
  "t_id task \<noteq> b \<Longrightarrow>
     find (\<lambda>r. t_id r = b) (db_tasks (snd (executeTask ag task ctx d))) =
       find (\<lambda>r. t_id r = b) (db_tasks d)"
  by (rule tasks_evolve_find[OF executeTask_evolve]) simp

lemma dependent_untouched:
  assumes "distinct (map t_id ts)" "\<forall>t \<in> set ts. t_id t = b \<longrightarrow> a \<in> set (deps_of t)"
    "a \<notin> t_id ` set ts" "all_rows d a (\<lambda>r. t_status r \<noteq> TaskCompleted)"
  shows "untouched b ag plan ctx ts c f d"
  using assms
proof (induction ts arbitrary: c f d)
  case Nil
  show ?case by (simp add: untouched_absent)
next
  case (Cons task rest)
  from Cons.prems have dr: "distinct (map t_id rest)"
    and br: "\<forall>t \<in> set rest. t_id t = b \<longrightarrow> a \<in> set (deps_of t)"
    and ar: "a \<notin> t_id ` set rest" and at: "a \<noteq> t_id task" by auto
  show ?case
  proof (cases "t_id task = b")
    case True
    with Cons.prems(2) have "a \<in> set (deps_of task)" by simp
    from incomplete_if_not_completed[OF Cons.prems(4) this]
    have sk: "skipped plan task d" .
    from True Cons.prems(1) have "b \<notin> t_id ` set rest" by auto
    from untouched_absent[OF this, of ag plan ctx c f d] sk show ?thesis
      by (simp add: untouched_def run_tasks_Cons)
  next
    case False
    show ?thesis
    proof (cases "skipped plan task d")
      case True
      from Cons.IH[OF dr br ar Cons.prems(4), of c f] True False show ?thesis
        by (intro untouched_step[where c' = c and f' = f and d' = d])
          (auto simp: run_tasks_Cons)
    next
      case ns: False
      let ?d1 = "snd (executeTask ag task ctx d)"
      from at have "a \<notin> {t_id task}" by simp
      from tasks_evolve_all_rows[OF executeTask_evolve this Cons.prems(4)]
      have a1: "all_rows ?d1 a (\<lambda>r. t_status r \<noteq> TaskCompleted)" .
      note f1 = executeTask_find_other[OF False, of ag ctx d]
      show ?thesis
      proof (cases "task_completes ag task ctx d")
        case True
        from Cons.IH[OF dr br ar a1, of "c @ [task]" f] ns True False f1 show ?thesis
          by (intro untouched_step[where c' = "c @ [task]" and f' = f and d' = ?d1])
            (auto simp: run_tasks_Cons)
      next
        case fl: False
        from Cons.IH[OF dr br ar a1, of c "f @ [task]"] ns fl False f1 show ?thesis
          by (intro untouched_step[where c' = c and f' = "f @ [task]" and d' = ?d1])
            (auto simp: run_tasks_Cons)
      qed
    qed
  qed
qed

lemma new_usage_nil [simp]: "new_usage d d = []"
  by (simp add: new_usage_def)

lemma new_usage_append:
  assumes "db_toolUsage d1 = db_toolUsage d @ n1" "db_toolUsage d2 = db_toolUsage d1 @ n2"
  shows "new_usage d d2 = n1 @ n2" "new_usage d1 d2 = n2" "new_usage d d1 = n1"
  using assms by (simp_all add: new_usage_def)

lemma failed_dependency:
  assumes "distinct (map t_id ts)" "not_after a b ts" "a \<noteq> b"
    "\<forall>t \<in> set ts. t_id t = b \<longrightarrow> a \<in> set (deps_of t)"
    "u \<in> set (new_usage d (snd (run_tasks ag plan ctx ts c f d)))"
    "u_taskId u = Some a" "\<not> u_success u"
  shows "all_rows (snd (run_tasks ag plan ctx ts c f d)) a (\<lambda>r. t_status r = TaskFailed) \<and>
         untouched b ag plan ctx ts c f d \<and>
         snd (fst (run_tasks ag plan ctx ts c f d)) \<noteq> []"
  using assms(1,2,4,5)
proof (induction ts arbitrary: c f d)
  case Nil
  then show ?case by simp
next
  case (Cons task rest)
  from Cons.prems have dr: "distinct (map t_id rest)" and nr: "not_after a b rest"
    and br: "\<forall>t \<in> set rest. t_id t = b \<longrightarrow> a \<in> set (deps_of t)"
    and tr: "t_id task \<notin> t_id ` set rest"
    and tb: "t_id task = b \<Longrightarrow> a \<notin> t_id ` set rest" by auto
  have in_rest: "a \<in> t_id ` set rest"
    if "u \<in> set (new_usage d' (snd (run_tasks ag plan ctx rest c' f' d')))" for c' f' d'
  proof -
    from run_tasks_new_usage[of ag plan ctx rest c' f' d'] obtain n where
      n: "db_toolUsage (snd (run_tasks ag plan ctx rest c' f' d')) = db_toolUsage d' @ n"
      "\<forall>u \<in> set n. \<exists>t \<in> set rest. u_taskId u = Some (t_id t)" by blast
    from n(1) have "new_usage d' (snd (run_tasks ag plan ctx rest c' f' d')) = n"
      by (simp add: new_usage_def)
    with that have "u \<in> set n" by simp
    with n(2) obtain t where "t \<in> set rest" "u_taskId u = Some (t_id t)" by blast
    with assms(6) have "t \<in> set rest" "a = t_id t" by simp_all
    then show ?thesis by blast
  qed
  show ?case
  proof (cases "skipped plan task d")
    case True
    with Cons.prems(4) have u: "u \<in> set (new_usage d (snd (run_tasks ag plan ctx rest c f d)))"
      by (simp add: run_tasks_Cons)
    from in_rest[OF u] tb have nb: "t_id task \<noteq> b" by blast
    from Cons.IH[OF dr nr br u] True nb show ?thesis
      by (auto simp: run_tasks_Cons intro: untouched_step[where c' = c and f' = f and d' = d])
  next
    case ns: False
    let ?d1 = "snd (executeTask ag task ctx d)"
    let ?c' = "if task_completes ag task ctx d then c @ [task] else c"
    let ?f' = "if task_completes ag task ctx d then f else f @ [task]"
    let ?d2 = "snd (run_tasks ag plan ctx rest ?c' ?f' ?d1)"
    from ns have run: "run_tasks ag plan ctx (task # rest) c f d =
        run_tasks ag plan ctx rest ?c' ?f' ?d1"
      by (simp add: run_tasks_Cons)
    from executeTask_new_usage[of ag task ctx d] obtain n1 where
      n1: "db_toolUsage ?d1 = db_toolUsage d @ n1"
      "\<forall>u \<in> set n1. u_taskId u = Some (t_id task) \<and> u_success u = task_succeeds ag task ctx"
      by blast
    from run_tasks_new_usage[of ag plan ctx rest ?c' ?f' ?d1] obtain n2 where
      n2: "db_toolUsage ?d2 = db_toolUsage ?d1 @ n2" by blast
    note nu = new_usage_append[OF n1(1) n2]
    from Cons.prems(4) have "u \<in> set (new_usage d ?d2)" unfolding run by simp
    with nu(1) consider (here) "u \<in> set n1" | (later) "u \<in> set n2" by auto
    then show ?thesis
    proof cases
      case here
      with n1(2) assms(6,7) have ta: "t_id task = a" and fs: "\<not> task_succeeds ag task ctx"
        by auto
      then have fl: "\<not> task_completes ag task ctx d" by (simp add: task_completes_def)
      from ta assms(3) have nb: "t_id task \<noteq> b" by simp
      from executeTask_status[of ag task ctx d] fs ta
      have a1: "all_rows ?d1 a (\<lambda>r. t_status r = TaskFailed)" by simp
      from ta tr have ar: "a \<notin> t_id ` set rest" by simp
      from tasks_evolve_all_rows[OF run_tasks_evolve ar a1]
      have a2: "all_rows ?d2 a (\<lambda>r. t_status r = TaskFailed)" .
      from a1 have "all_rows ?d1 a (\<lambda>r. t_status r \<noteq> TaskCompleted)"
        unfolding all_rows_def list_all_iff by auto
      from dependent_untouched[OF dr br ar this, of ag plan ctx ?c' ?f']
      have un: "untouched b ag plan ctx rest ?c' ?f' ?d1" .
      have "untouched b ag plan ctx (task # rest) c f d"
        by (rule untouched_step[OF un _ nb executeTask_find_other[OF nb] run]) auto
      moreover from fl have "snd (fst (run_tasks ag plan ctx rest ?c' ?f' ?d1)) \<noteq> []"
        by (intro run_tasks_failed_nonempty) simp
      ultimately show ?thesis using a2 unfolding run by simp
    next
      case later
      with nu(2) have u: "u \<in> set (new_usage ?d1 ?d2)" by simp
      from in_rest[OF u] tb tr have nb: "t_id task \<noteq> b" by blast
      from Cons.IH[OF dr nr br u]
      have ih: "all_rows ?d2 a (\<lambda>r. t_status r = TaskFailed)"
        "untouched b ag plan ctx rest ?c' ?f' ?d1"
        "snd (fst (run_tasks ag plan ctx rest ?c' ?f' ?d1)) \<noteq> []" by simp_all
      have "untouched b ag plan ctx (task # rest) c f d"
        by (rule untouched_step[OF ih(2) _ nb executeTask_find_other[OF nb] run]) auto
      with ih(1,3) show ?thesis unfolding run by simp
    qed
  qed
qed


lemma tasks_evolve_has_row:
  assumes "tasks_evolve S d d'" "task_status_of d i \<noteq> None"
  shows "task_status_of d' i \<noteq> None"
proof -
  from assms(1) obtain h where h: "db_tasks d' = map h (db_tasks d)"
    "\<And>r. t_id (h r) = t_id r"
    unfolding tasks_evolve_def by blast
  have "find (\<lambda>r. t_id r = i) (db_tasks d') = map_option h (find (\<lambda>r. t_id r = i) (db_tasks d))"
    unfolding h(1) by (rule find_id_map) (rule h(2))
  with assms(2) show ?thesis by (simp add: task_status_of_def)
qed

lemma all_rows_status:
  assumes "all_rows d i (\<lambda>r. t_status r = s)" "task_status_of d i \<noteq> None"
  shows "task_status_of d i = Some s"
proof -
  from assms(2) obtain r where r: "find (\<lambda>r. t_id r = i) (db_tasks d) = Some r"
    by (auto simp: task_status_of_def)
  then have "r \<in> set (db_tasks d)" "t_id r = i" by (auto simp: find_Some_iff)
  with assms(1) have "t_status r = s" unfolding all_rows_def list_all_iff by blast
  with r show ?thesis by (simp add: task_status_of_def)
qed


text \<open>
  A plan in which \<open>b\<close> depends on \<open>a\<close>, and \<open>a\<close> calls the Confluence search
  without a query, so that its tool returns a structured failure.
\<close>

definition dependent_tasks :: "task list" where
  "dependent_tasks = [example_task ''b'' 0 (Some [''a'']), example_task ''a'' 1 None]"

lemma dependent_tasks_sorted:
  "sortTasksByPriorityAndDependencies (p_tasks (example_plan dependent_tasks)) =
     Inr [example_task ''a'' 1 None, example_task ''b'' 0 (Some [''a''])]"
  by (simp add: sortTasksByPriorityAndDependencies_def example_plan_def dependent_tasks_def
      example_task_def visit.simps deps_of_def)

lemma dependent_tasks_run:
  "map (\<lambda>u. (u_taskId u, u_success u, u_errorMessage u))
     (new_usage (example_db dependent_tasks)
        (snd (executePlan confluence_agent (example_plan dependent_tasks) example_context
           (example_db dependent_tasks)))) =
     [(Some ''a'', False, Some ''Missing required parameter: query'')]"
  unfolding executePlan_sorted[OF dependent_tasks_sorted]
  by (simp add: run_tasks.simps Let_def new_usage_def incompleteDeps_def deps_of_def
      executeTask_def executeTool_def selectTool_def confluence_agent_def
      example_task_def example_db_def example_context_def example_plan_def
      dependent_tasks_def set_plan_status_def update_plans_where_id_def
      ConfluenceSearchTool_def validateParams_def has_param_def createResult_def
      insert_toolUsage_def createId_def update_tasks_where_id_def
      executeTool_catch_def references_task_def task_status_of_def)

lemma dependent_tasks_hyps:
  "distinct (map t_id (p_tasks (example_plan dependent_tasks)))"
  "example_task ''a'' 1 None \<in> set (p_tasks (example_plan dependent_tasks))"
  "example_task ''b'' 0 (Some [''a'']) \<in> set (p_tasks (example_plan dependent_tasks))"
  "t_id (example_task ''a'' 1 None) \<in> set (deps_of (example_task ''b'' 0 (Some [''a''])))"
  "task_status_of (example_db dependent_tasks) (t_id (example_task ''a'' 1 None)) \<noteq> None"
  "task_status_of (example_db dependent_tasks) (t_id (example_task ''b'' 0 (Some [''a'']))) =
     Some TaskPending"
  "plan_status_of (example_db dependent_tasks) (p_id (example_plan dependent_tasks)) \<noteq> None"
  by (simp_all add: example_plan_def dependent_tasks_def example_task_def example_db_def
      deps_of_def plan_status_of_def task_status_of_def)

lemma dependent_tasks_fail:
  "\<exists>u \<in> set (new_usage (example_db dependent_tasks)
        (snd (executePlan confluence_agent (example_plan dependent_tasks) example_context
           (example_db dependent_tasks)))).
     u_taskId u = Some (t_id (example_task ''a'' 1 None)) \<and> \<not> u_success u"
proof -
  let ?n = "new_usage (example_db dependent_tasks)
        (snd (executePlan confluence_agent (example_plan dependent_tasks) example_context
           (example_db dependent_tasks)))"
  from dependent_tasks_run obtain u where "?n = [u]" "u_taskId u = Some ''a''" "\<not> u_success u"
    by auto
  then show ?thesis by (simp add: example_task_def)
qed


subsection \<open>Claim C3: the dependent of a failed task stays pending\<close>

text \<open>
  C3. Let a plan (with pairwise distinct task ids, and with its row in the store) contain
  tasks \<open>A\<close> and \<open>B\<close>, where \<open>B\<close> lists \<open>A\<close> among its dependencies, \<open>A\<close> has a
  row and \<open>B\<close>'s row is \<^verbatim>\<open>pending\<close>. If executing \<open>A\<close>'s tool fails, that is, if
  the run of \<^verbatim>\<open>executePlan\<close> writes a tool usage row for \<open>A\<close> with
  \<^verbatim>\<open>success = false\<close> (the tool returned a failure result or threw), then after the
  run \<open>B\<close>'s row is exactly what it was, so \<open>B\<close> is still \<^verbatim>\<open>pending\<close> and was never
  started; \<open>B\<close> is in neither result array; \<open>A\<close>'s status is \<^verbatim>\<open>failed\<close>; the
  plan's status is \<^verbatim>\<open>failed\<close> and the result reports no success.
\<close>

theorem failed_dependency_skips_dependent:
  assumes dist: "distinct (map t_id (p_tasks plan))"
    and A: "A \<in> set (p_tasks plan)" and B: "B \<in> set (p_tasks plan)"
    and dep: "t_id A \<in> set (deps_of B)"
    and rowA: "task_status_of d (t_id A) \<noteq> None"
    and rowB: "task_status_of d (t_id B) = Some TaskPending"
    and rowP: "plan_status_of d (p_id plan) \<noteq> None"
    and fail: "\<exists>u \<in> set (new_usage d (snd (executePlan ag plan ctx d))).
                 u_taskId u = Some (t_id A) \<and> \<not> u_success u"
  shows "task_status_of (snd (executePlan ag plan ctx d)) (t_id B) = Some TaskPending \<and>
         find (\<lambda>r. t_id r = t_id B) (db_tasks (snd (executePlan ag plan ctx d))) =
           find (\<lambda>r. t_id r = t_id B) (db_tasks d) \<and>
         B \<notin> set (er_completedTasks (fst (executePlan ag plan ctx d))) \<and>
         B \<notin> set (er_failedTasks (fst (executePlan ag plan ctx d))) \<and>
         task_status_of (snd (executePlan ag plan ctx d)) (t_id A) = Some TaskFailed \<and>
         plan_status_of (snd (executePlan ag plan ctx d)) (p_id plan) = Some PlanFailed \<and>
         \<not> er_success (fst (executePlan ag plan ctx d))"
proof -
  let ?tasks = "p_tasks plan"
  let ?d1 = "set_plan_status (p_id plan) PlanActive d"
  from fail obtain u where u: "u \<in> set (new_usage d (snd (executePlan ag plan ctx d)))"
    "u_taskId u = Some (t_id A)" "\<not> u_success u" by blast
  obtain out where s: "sortTasksByPriorityAndDependencies ?tasks = Inr out"
  proof (cases "sortTasksByPriorityAndDependencies ?tasks")
    case (Inl err)
    from executePlan_sort_error[OF Inl, of ag ctx d]
    have "new_usage d (snd (executePlan ag plan ctx d)) = []" by (simp add: new_usage_def)
    with u(1) show ?thesis by simp
  next
    case (Inr out)
    with that show ?thesis .
  qed
  let ?r = "run_tasks ag plan ctx out [] [] ?d1"
  note e = executePlan_sorted[OF s, of ag ctx d]
  note ss = sort_success[OF dist s]
  from ss(1) have se: "set out = set ?tasks" by (rule mset_eq_setD)
  have nu: "new_usage d (snd (executePlan ag plan ctx d)) = new_usage ?d1 (snd ?r)"
    unfolding e by (simp add: Let_def new_usage_def)
  have ne: "t_id A \<noteq> t_id B"
  proof
    assume eq: "t_id A = t_id B"
    with B dep have "(t_id B, t_id B) \<in> dep_graph ?tasks" unfolding in_dep_graph by auto
    then have "(t_id B, t_id B) \<in> (dep_graph ?tasks)\<^sup>+" by (rule r_into_trancl)
    with sort_success_acyclic[OF dist s] show False unfolding acyclic_def by blast
  qed
  have bd: "\<forall>t \<in> set out. t_id t = t_id B \<longrightarrow> t_id A \<in> set (deps_of t)"
  proof (intro ballI impI)
    fix t assume "t \<in> set out" "t_id t = t_id B"
    with se have "t \<in> set ?tasks" by simp
    from same_id_same_task[OF dist this B \<open>t_id t = t_id B\<close>] dep
    show "t_id A \<in> set (deps_of t)" by simp
  qed
  from A have "t_id A \<in> t_id ` set ?tasks" by simp
  from deps_before_not_after[OF ss(2) ss(3) _ this bd]
  have na: "not_after (t_id A) (t_id B) out" by simp
  from u(1) nu have "u \<in> set (new_usage ?d1 (snd ?r))" by simp
  from failed_dependency[OF ss(3) na ne bd this u(2) u(3)]
  have af: "all_rows (snd ?r) (t_id A) (\<lambda>r. t_status r = TaskFailed)"
    and un: "untouched (t_id B) ag plan ctx out [] [] ?d1"
    and nf: "snd (fst ?r) \<noteq> []" by simp_all
  from un have fb: "find (\<lambda>r. t_id r = t_id B) (db_tasks (snd ?r)) =
      find (\<lambda>r. t_id r = t_id B) (db_tasks d)"
    and nb: "B \<notin> set (fst (fst ?r)) \<union> set (snd (fst ?r))"
    unfolding untouched_def by auto
  have tf: "db_tasks (snd (executePlan ag plan ctx d)) = db_tasks (snd ?r)"
    unfolding e by (simp add: Let_def)
  from fb tf have c2: "find (\<lambda>r. t_id r = t_id B) (db_tasks (snd (executePlan ag plan ctx d))) =
      find (\<lambda>r. t_id r = t_id B) (db_tasks d)" by simp
  with rowB have c1: "task_status_of (snd (executePlan ag plan ctx d)) (t_id B) =
      Some TaskPending" by (simp add: task_status_of_def)
  from nb have c3: "B \<notin> set (er_completedTasks (fst (executePlan ag plan ctx d)))"
    and c4: "B \<notin> set (er_failedTasks (fst (executePlan ag plan ctx d)))"
    unfolding e by (simp_all add: Let_def)
  from rowA have "task_status_of ?d1 (t_id A) \<noteq> None"
    by (simp add: task_status_of_cong[of ?d1 d])
  from tasks_evolve_has_row[OF run_tasks_evolve this]
  have "task_status_of (snd ?r) (t_id A) \<noteq> None" .
  from all_rows_status[OF af this] tf
  have c5: "task_status_of (snd (executePlan ag plan ctx d)) (t_id A) = Some TaskFailed"
    by (simp add: task_status_of_cong[of "snd (executePlan ag plan ctx d)" "snd ?r"])
  from rowP have "plan_status_of ?d1 (p_id plan) \<noteq> None" by (simp add: plan_status_of_set)
  then have "plan_status_of (snd ?r) (p_id plan) \<noteq> None"
    by (simp add: plan_status_of_cong[of "snd ?r" ?d1])
  then have c6: "plan_status_of (snd (executePlan ag plan ctx d)) (p_id plan) = Some PlanFailed"
    unfolding e by (simp add: Let_def nf plan_status_of_set)
  have c7: "\<not> er_success (fst (executePlan ag plan ctx d))"
    unfolding e by (simp add: Let_def nf)
  from c1 c2 c3 c4 c5 c6 c7 show ?thesis by blast
qed



theorem failed_dependency_skips_dependent_witness:
  "task_status_of (snd (executePlan confluence_agent (example_plan dependent_tasks)
       example_context (example_db dependent_tasks))) ''b'' = Some TaskPending \<and>
   task_status_of (snd (executePlan confluence_agent (example_plan dependent_tasks)
       example_context (example_db dependent_tasks))) ''a'' = Some TaskFailed \<and>
   plan_status_of (snd (executePlan confluence_agent (example_plan dependent_tasks)
       example_context (example_db dependent_tasks))) ''plan'' = Some PlanFailed \<and>
   \<not> er_success (fst (executePlan confluence_agent (example_plan dependent_tasks)
       example_context (example_db dependent_tasks)))"
  using failed_dependency_skips_dependent[OF dependent_tasks_hyps dependent_tasks_fail]
  by (simp add: example_task_def example_plan_def)

section \<open>Planning, goal tracking and the mission orchestrator\<close>

text \<open>\<^verbatim>\<open>{...row, tasks}\<close>: the in-memory plan made of a stored row and a task array.\<close>

definition with_tasks :: "plan_row \<Rightarrow> task list \<Rightarrow> plan" where
  "with_tasks r ts =
     \<lparr>p_id = p_id r, p_missionId = p_missionId r, p_version = p_version r,
      p_title = p_title r, p_description = p_description r, p_status = p_status r,
      p_estimatedDuration = p_estimatedDuration r, p_updatedAt = p_updatedAt r,
      p_tasks = ts\<rparr>"

text \<open>
  \<^verbatim>\<open>db.insert(schema.tasks).values({planId, ...taskData}).returning()\<close>. The column
  \<^verbatim>\<open>plan_id\<close> references \<^verbatim>\<open>plans.id\<close>: without a row of the plan the insert
  throws. \<open>task_row\<close> is the inserted row, with the column defaults.
\<close>

definition task_row :: "string \<Rightarrow> string \<Rightarrow> task_data \<Rightarrow> task" where
  "task_row i planId taskData =
     \<lparr>t_id = i, t_planId = planId, t_title = td_title taskData,
      t_status = TaskPending, t_priority = td_priority taskData,
      t_toolName = td_toolName taskData, t_toolParams = td_toolParams taskData,
      t_dependencies = td_dependencies taskData, t_startedAt = None,
      t_completedAt = None, t_result = None\<rparr>"

definition insert_task :: "string \<Rightarrow> task_data \<Rightarrow> db \<Rightarrow> error + task \<times> db" where
  "insert_task planId taskData d =
     (let (i, d1) = createId d;
          newTask = task_row i planId taskData
      in if plan_status_of d1 planId = None then Inl foreign_key_error
         else Inr (newTask, d1\<lparr>db_tasks := db_tasks d1 @ [newTask]\<rparr>))"

text \<open>
  The loop \<^verbatim>\<open>for (const taskData of planData.tasks)\<close> with its array \<^verbatim>\<open>tasks\<close>.
  An insert that throws ends the loop; the rows inserted before it stay in the store.
\<close>

fun insert_tasks ::
  "string \<Rightarrow> task_data list \<Rightarrow> task list \<Rightarrow> db \<Rightarrow> (error + task list) \<times> db" where
  "insert_tasks planId [] tasks d = (Inr tasks, d)"
| "insert_tasks planId (taskData # rest) tasks d =
     (case insert_task planId taskData d of
        Inl err \<Rightarrow> (Inl err, d)
      | Inr (newTask, d1) \<Rightarrow> insert_tasks planId rest (tasks @ [newTask]) d1)"

text \<open>
  Iterating over a \<^verbatim>\<open>tasks\<close> entry that the reply does not have throws a
  \<^verbatim>\<open>TypeError\<close>, whose message names the expression.
\<close>

definition not_iterable :: "string \<Rightarrow> error" where
  "not_iterable expr = Error (expr @ '' is not iterable'')"

text \<open>
  \<^verbatim>\<open>db.insert(schema.plans).values({missionId, ...}).returning()\<close>. The column
  \<^verbatim>\<open>mission_id\<close> references \<^verbatim>\<open>missions.id\<close>: without a row of the mission the
  insert throws. A description or duration that the reply leaves out is stored as null.
\<close>

definition insert_plan :: "string \<Rightarrow> int \<Rightarrow> plan_data \<Rightarrow> db \<Rightarrow> error + plan_row \<times> db" where
  "insert_plan missionId version planData d =
     (let (i, d1) = createId d;
          newPlan = \<lparr>p_id = i, p_missionId = missionId, p_version = version,
                     p_title = pd_title planData, p_description = pd_description planData,
                     p_status = PlanDraft,
                     p_estimatedDuration = pd_estimatedDuration planData,
                     p_updatedAt = db_clock d1\<rparr>
      in if mission_status_of d1 missionId = None then Inl foreign_key_error
         else Inr (newPlan, d1\<lparr>db_plans := db_plans d1 @ [newPlan]\<rparr>))"

text \<open>
  \<^verbatim>\<open>PlanningEngine.createPlan\<close>. The \<^verbatim>\<open>catch\<close> block logs and rethrows. The version
  of a new row is the column default 1. An error after the insert of the plan row leaves
  that row, and the task rows inserted so far, in the store.
\<close>

definition createPlan ::
  "agent \<Rightarrow> mission \<Rightarrow> exec_context \<Rightarrow> db \<Rightarrow> (error + planning_result) \<times> db" where
  "createPlan ag mission ctx d =
     (case deepseek_generatePlan ag (CreatePlanFor mission) of
        Inl err \<Rightarrow> (Inl err, d)
      | Inr planData \<Rightarrow>
          (case insert_plan (m_id mission) 1 planData d of
             Inl err \<Rightarrow> (Inl err, d)
           | Inr (newPlan, d2) \<Rightarrow>
               (case pd_tasks planData of
                  None \<Rightarrow> (Inl (not_iterable ''planData.tasks''), d2)
                | Some taskDatas \<Rightarrow>
                    (case insert_tasks (p_id newPlan) taskDatas [] d2 of
                       (Inl err, d3) \<Rightarrow> (Inl err, d3)
                     | (Inr tasks, d3) \<Rightarrow>
                         (Inr \<lparr>pr_plan = with_tasks newPlan tasks,
                               pr_reasoning = pd_reasoning planData,
                               pr_confidence = pd_confidence planData\<rparr>, d3)))))"

text \<open>
  \<^verbatim>\<open>db.delete(schema.tasks).where(eq(schema.tasks.planId, planId))\<close>: the task rows of
  the plan go, and with them the tool usage rows that reference one of them (and the log
  and reflection rows, which are not part of \<open>db\<close>). The functions here insert no
  task with a parent task, so the reference \<^verbatim>\<open>tasks.parent_task_id\<close>, which has no
  cascade, never stands in the way of the delete.
\<close>

definition delete_tasks_where_planId :: "string \<Rightarrow> db \<Rightarrow> db" where
  "delete_tasks_where_planId planId d =
     (let deleted = map t_id (filter (\<lambda>t. t_planId t = planId) (db_tasks d)) in
      d\<lparr>db_tasks := filter (\<lambda>t. t_planId t \<noteq> planId) (db_tasks d),
        db_toolUsage := filter (\<lambda>u. case u_taskId u of
                                       None \<Rightarrow> True
                                     | Some t \<Rightarrow> t \<notin> set deleted) (db_toolUsage d)\<rparr>)"

text \<open>
  \<^verbatim>\<open>PlanningEngine.updatePlan\<close>: the plan's row is rewritten under its id, the task
  rows of the plan are deleted and the tasks of the reply are inserted. A column set to
  \<^verbatim>\<open>undefined\<close> is left as it is by the query builder, so a description or duration
  that the reply leaves out keeps its stored value, while the returned plan has it
  \<^verbatim>\<open>undefined\<close>. The \<^verbatim>\<open>catch\<close> block logs and rethrows.
\<close>

definition updatePlan ::
  "agent \<Rightarrow> plan \<Rightarrow> string \<Rightarrow> exec_context \<Rightarrow> db \<Rightarrow> (error + planning_result) \<times> db" where
  "updatePlan ag plan feedback ctx d =
     (case deepseek_generatePlan ag (UpdatePlanFor plan feedback) of
        Inl err \<Rightarrow> (Inl err, d)
      | Inr updatedData \<Rightarrow>
          (let d1 = update_plans_where_id (p_id plan)
                      (\<lambda>r. r\<lparr>p_title := pd_title updatedData,
                              p_description := (case pd_description updatedData of
                                                  None \<Rightarrow> p_description r
                                                | Some v \<Rightarrow> Some v),
                              p_estimatedDuration := (case pd_estimatedDuration updatedData of
                                                        None \<Rightarrow> p_estimatedDuration r
                                                      | Some v \<Rightarrow> Some v),
                              p_version := p_version plan + 1,
                              p_updatedAt := db_clock d\<rparr>) d;
               d2 = delete_tasks_where_planId (p_id plan) d1
           in case pd_tasks updatedData of
                None \<Rightarrow> (Inl (not_iterable ''updatedData.tasks''), d2)
              | Some taskDatas \<Rightarrow>
                  (case insert_tasks (p_id plan) taskDatas [] d2 of
                     (Inl err, d3) \<Rightarrow> (Inl err, d3)
                   | (Inr tasks, d3) \<Rightarrow>
                       (Inr \<lparr>pr_plan = plan\<lparr>p_title := pd_title updatedData,
                                             p_description := pd_description updatedData,
                                             p_estimatedDuration :=
                                               pd_estimatedDuration updatedData,
                                             p_version := p_version plan + 1,
                                             p_tasks := tasks,
                                             p_updatedAt := db_clock d3\<rparr>,
                             pr_reasoning = pd_reasoning updatedData,
                             pr_confidence = pd_confidence updatedData\<rparr>, d3))))"

text \<open>
  \<^verbatim>\<open>GoalOrientedEngine.trackProgress\<close>: the share of completed tasks among the tasks
  of the mission's first plan. The quotient of two array lengths is a rational number.
\<close>

definition trackProgress :: "mission \<Rightarrow> db \<Rightarrow> rat" where
  "trackProgress mission d =
     (case filter (\<lambda>p. p_missionId p = m_id mission) (db_plans d) of
        [] \<Rightarrow> 0
      | plan0 # others \<Rightarrow>
          (let allTasks = filter (\<lambda>t. t_planId t = p_id plan0) (db_tasks d);
               completedTasks = filter (\<lambda>t. t_status t = TaskCompleted) allTasks;
               progress = (if length allTasks > 0
                           then of_nat (length completedTasks) / of_nat (length allTasks)
                           else 0)
           in min progress 1))"

text \<open>
  \<^verbatim>\<open>GoalOrientedEngine.adjustStrategy\<close>: below half progress a new plan version is
  inserted and the old plan is marked superseded; any error, that of a failing insert
  included, returns the old plan.
\<close>

definition adjustStrategy ::
  "agent \<Rightarrow> mission \<Rightarrow> plan \<Rightarrow> exec_context \<Rightarrow> db \<Rightarrow> plan \<times> db" where
  "adjustStrategy ag mission plan ctx d =
     (let progress = trackProgress mission d in
      if progress < 1 / 2 then
        (case deepseek_generatePlan ag (AdjustPlanFor mission plan progress) of
           Inl err \<Rightarrow> (plan, d)
         | Inr adjustmentPlan \<Rightarrow>
             (case insert_plan (m_id mission) (p_version plan + 1) adjustmentPlan d of
                Inl err \<Rightarrow> (plan, d)
              | Inr (newPlan, d2) \<Rightarrow>
                  (let d3 = set_plan_status (p_id plan) PlanSuperseded d2
                   in (with_tasks newPlan [], d3))))
      else (plan, d))"

text \<open>
  \<^verbatim>\<open>GoalOrientedEngine.validateCompletion\<close>. The completion percentage is the number
  that \<^verbatim>\<open>JSON.parse\<close> returns, a double, given here by its exact rational value.
  The literal \<^verbatim>\<open>0.9\<close> is the double nearest to nine tenths, which is
  \<open>8106479329266893 / 2^53\<close>, and \<^verbatim>\<open>>=\<close> compares the two values.
\<close>

definition double_0_9 :: rat where
  "double_0_9 = 8106479329266893 / 9007199254740992"

definition validateCompletion :: "agent \<Rightarrow> mission \<Rightarrow> execution_result \<Rightarrow> bool" where
  "validateCompletion ag mission result =
     (case deepseek_assessCompletion ag mission result of
        Inl err \<Rightarrow> False
      | Inr assessmentData \<Rightarrow>
          a_completed assessmentData \<and> a_completionPercentage assessmentData \<ge> double_0_9)"

definition set_mission_status :: "string \<Rightarrow> mission_status \<Rightarrow> db \<Rightarrow> db" where
  "set_mission_status i s d = update_missions_where_id i (\<lambda>r. r\<lparr>m_status := s\<rparr>) d"

text \<open>
  \<^verbatim>\<open>ServiceManagementAgentImpl.executeMission\<close>; \<open>mission_failed\<close> is its
  \<^verbatim>\<open>catch\<close> block. \<^verbatim>\<open>completedAt\<close> is written only when the mission is completed.
  The store is shared with the route handlers and the dashboard, which read it while a
  mission runs. \<open>executeMission_trace\<close> therefore returns, with the result, the
  stores that can be read from outside in the course of the call: the store after each
  write of the mission status and the store at the end of planning and of plan
  execution. \<open>executeMission\<close> is the result with the last of these stores.
\<close>

definition mission_failed :: "mission \<Rightarrow> error \<Rightarrow> db \<Rightarrow> execution_result \<times> db" where
  "mission_failed mission err d =
     (\<lparr>er_success = False, er_completedTasks = [], er_failedTasks = [],
       er_reflections = [], er_error = Some (message err)\<rparr>,
      set_mission_status (m_id mission) MissionFailed d)"

definition executeMission_trace ::
  "agent \<Rightarrow> mission \<Rightarrow> db \<Rightarrow> execution_result \<times> db list" where
  "executeMission_trace ag mission d =
     (let d1 = set_mission_status (m_id mission) MissionPlanning d;
          context = \<lparr>c_missionId = m_id mission, c_planId = [], c_taskId = None\<rparr>
      in case createPlan ag mission context d1 of
           (Inl err, d2) \<Rightarrow>
             (case mission_failed mission err d2 of
                (failure, d3) \<Rightarrow> (failure, [d1, d2, d3]))
         | (Inr planningResult, d2) \<Rightarrow>
             (let context' = context\<lparr>c_planId := p_id (pr_plan planningResult)\<rparr>;
                  d3 = set_mission_status (m_id mission) MissionExecuting d2;
                  (executionResult, d4) = executePlan ag (pr_plan planningResult) context' d3;
                  isCompleted = validateCompletion ag mission executionResult;
                  finalStatus = (if isCompleted then MissionCompleted else MissionFailed);
                  d5 = update_missions_where_id (m_id mission)
                         (\<lambda>r. r\<lparr>m_status := finalStatus,
                                 m_completedAt := (if isCompleted then Some (db_clock d4)
                                                   else m_completedAt r)\<rparr>) d4
              in (executionResult\<lparr>er_success := isCompleted\<rparr>, [d1, d2, d3, d4, d5])))"

definition executeMission :: "agent \<Rightarrow> mission \<Rightarrow> db \<Rightarrow> execution_result \<times> db" where
  "executeMission ag mission d =
     (case executeMission_trace ag mission d of (result, stores) \<Rightarrow> (result, last stores))"

definition pauseMission :: "string \<Rightarrow> db \<Rightarrow> db" where
  "pauseMission missionId d = set_mission_status missionId MissionPending d"

definition resumeMission :: "agent \<Rightarrow> string \<Rightarrow> db \<Rightarrow> db" where
  "resumeMission ag missionId d =
     (case filter (\<lambda>m. m_id m = missionId) (db_missions d) of
        [] \<Rightarrow> d
      | mission # others \<Rightarrow> snd (executeMission ag mission d))"

definition cancelMission :: "string \<Rightarrow> db \<Rightarrow> db" where
  "cancelMission missionId d = set_mission_status missionId MissionFailed d"

text \<open>
  The \<^verbatim>\<open>PATCH\<close> handler of \<^verbatim>\<open>src/app/api/missions/[id]/route.ts\<close>: the HTTP status,
  the \<^verbatim>\<open>success\<close> flag of the reply, and the store.
\<close>

definition PATCH :: "string \<Rightarrow> string option \<Rightarrow> db \<Rightarrow> (nat \<times> bool) \<times> db" where
  "PATCH missionId action d =
     (if action = None \<or> action = Some [] then ((400, False), d)
      else if action = Some ''pause''
        then ((200, True), set_mission_status missionId MissionPending d)
      else if action = Some ''resume''
        then ((200, True), set_mission_status missionId MissionExecuting d)
      else if action = Some ''cancel''
        then ((200, True), set_mission_status missionId MissionFailed d)
      else ((400, False), d))"

section \<open>The completion threshold\<close>

text \<open>
  The finite doubles are among the rationals \<open>m * 2^a / 2^b\<close> with \<open>|m| < 2^53\<close>.
\<close>

definition is_double :: "rat \<Rightarrow> bool" where
  "is_double q \<longleftrightarrow> (\<exists>m a b. \<bar>m\<bar> < 2 ^ 53 \<and> q = of_int m * 2 ^ a / 2 ^ b)"

lemma double_0_9_above: "9 / 10 < double_0_9"
  by (simp add: double_0_9_def)

lemma int_ge_0_9:
  fixes k :: int
  assumes "(9::rat) / 10 \<le> of_int k / 9007199254740992"
  shows "double_0_9 \<le> of_int k / 9007199254740992"
proof -
  from assms have "(81064793292668928::rat) \<le> 10 * of_int k" by (simp add: field_simps)
  then have "(of_int 81064793292668928 :: rat) \<le> of_int (10 * k)" by simp
  then have "81064793292668928 \<le> 10 * k" by (simp only: of_int_le_iff)
  then have "8106479329266893 \<le> k" by presburger
  then have "(of_int 8106479329266893 :: rat) \<le> of_int k" by (simp only: of_int_le_iff)
  then show ?thesis by (simp add: double_0_9_def field_simps)
qed


lemma frac_rescale:
  fixes x :: rat
  assumes "B \<noteq> 0" "C \<noteq> 0" "p * B = A * C"
  shows "x * A / B = x * p / C"
proof -
  from assms(3) have "x * A * C = x * p * B" by (simp add: mult.assoc)
  with assms(1,2) show ?thesis by (simp add: frac_eq_eq)
qed

lemma double_ge_0_9:
  assumes "is_double q" "9 / 10 \<le> q"
  shows "double_0_9 \<le> q"
proof -
  from assms(1) obtain m :: int and a b :: nat where
    m: "\<bar>m\<bar> < 2 ^ 53" and q: "q = of_int m * 2 ^ a / 2 ^ b"
    unfolding is_double_def by blast
  show ?thesis
  proof (cases "b \<le> a + 53")
    case True
    define k where "k = m * 2 ^ (a + 53 - b)"
    from True have "a + 53 - b + b = a + 53" by simp
    then have "(2::rat) ^ (a + 53 - b) * 2 ^ b = 2 ^ (a + 53)"
      by (simp only: power_add [symmetric])
    also have "\<dots> = 2 ^ a * 2 ^ 53" by (rule power_add)
    finally have "(2::rat) ^ (a + 53 - b) * 2 ^ b = 2 ^ a * 2 ^ 53" .
    then have "of_int m * (2::rat) ^ a / 2 ^ b = of_int m * 2 ^ (a + 53 - b) / 2 ^ 53"
      by (intro frac_rescale) simp_all
    also have "of_int m * (2::rat) ^ (a + 53 - b) = of_int k" by (simp add: k_def)
    finally have "q = of_int k / 9007199254740992" by (simp add: q)
    with int_ge_0_9[of k] assms(2) show ?thesis by simp
  next
    case False
    then have "a + 54 \<le> b" by simp
    then have p: "(2::rat) ^ (a + 54) \<le> 2 ^ b" by (intro power_increasing) simp_all
    from m have "(of_int \<bar>m\<bar> :: rat) < of_int (2 ^ 53)" by (simp only: of_int_less_iff)
    then have "(of_int \<bar>m\<bar> :: rat) < 2 ^ 53" by simp
    then have "of_int \<bar>m\<bar> * (2::rat) ^ a < 2 ^ 53 * 2 ^ a" by simp
    then have h: "2 * (of_int \<bar>m\<bar> * (2::rat) ^ a) < 2 ^ (a + 54)"
      by (simp add: power_add)
    have lt: "2 * (of_int \<bar>m\<bar> * (2::rat) ^ a) < 2 ^ b"
      by (rule less_le_trans[OF h p])
    have "q \<le> \<bar>q\<bar>" by simp
    also have "\<bar>q\<bar> = of_int \<bar>m\<bar> * 2 ^ a / 2 ^ b"
      by (simp add: q abs_mult)
    also have "\<dots> < 1 / 2"
      using lt by (simp add: field_simps)
    finally have "q < 1 / 2" .
    with assms(2) show ?thesis by simp
  qed
qed

lemma double_compare:
  "is_double q \<Longrightarrow> double_0_9 \<le> q \<longleftrightarrow> 9 / 10 \<le> q"
  using double_ge_0_9[of q] double_0_9_above by auto

subsection \<open>Claim C10: completion needs the flag and at least 0.90\<close>

text \<open>
  C10. For every mission and execution result, \<^verbatim>\<open>validateCompletion\<close> returns true if
  and only if the judge's reply has its \<^verbatim>\<open>completed\<close> flag true and a completion
  percentage of at least nine tenths; when the judge fails (the call throws or the reply
  does not parse) it returns false. The percentage is a double, and for doubles the
  comparison with the literal \<^verbatim>\<open>0.9\<close> agrees with the comparison with \<open>9/10\<close>.
\<close>

theorem completion_threshold:
  assumes "\<forall>a. deepseek_assessCompletion ag mission result = Inr a \<longrightarrow>
              is_double (a_completionPercentage a)"
  shows "validateCompletion ag mission result \<longleftrightarrow>
           (\<exists>a. deepseek_assessCompletion ag mission result = Inr a \<and>
                a_completed a \<and> 9 / 10 \<le> a_completionPercentage a)"
proof (cases "deepseek_assessCompletion ag mission result")
  case (Inl err)
  then show ?thesis by (simp add: validateCompletion_def)
next
  case (Inr a)
  with assms have "is_double (a_completionPercentage a)" by blast
  from double_compare[OF this] Inr show ?thesis by (simp add: validateCompletion_def)
qed



definition example_mission :: mission where
  "example_mission =
     \<lparr>m_id = ''mission'', m_title = ''Mission'', m_description = ''Goal'',
      m_status = MissionPending, m_priority = Medium, m_completedAt = None\<rparr>"

definition empty_result :: execution_result where
  "empty_result =
     \<lparr>er_success = True, er_completedTasks = [], er_failedTasks = [], er_reflections = [],
      er_error = None\<rparr>"

text \<open>An agent whose judge answers \<^verbatim>\<open>{"completed": true, "completionPercentage": 0.9}\<close>.\<close>

definition judging_agent :: agent where
  "judging_agent =
     confluence_agent\<lparr>deepseek_assessCompletion :=
       (\<lambda>m r. Inr \<lparr>a_completed = True, a_completionPercentage = double_0_9\<rparr>)\<rparr>"

lemma is_double_0_9: "is_double double_0_9"
proof -
  have "\<bar>8106479329266893 :: int\<bar> < 2 ^ 53" by simp
  moreover have "double_0_9 = of_int 8106479329266893 * 2 ^ 0 / 2 ^ 53"
    by (simp add: double_0_9_def)
  ultimately show ?thesis unfolding is_double_def by blast
qed

theorem completion_threshold_witness:
  "validateCompletion judging_agent example_mission empty_result \<and>
   deepseek_assessCompletion judging_agent example_mission empty_result =
     Inr \<lparr>a_completed = True, a_completionPercentage = double_0_9\<rparr> \<and>
   9 / 10 \<le> double_0_9 \<and>
   \<not> validateCompletion confluence_agent example_mission empty_result"
proof -
  have j: "deepseek_assessCompletion judging_agent example_mission empty_result =
     Inr \<lparr>a_completed = True, a_completionPercentage = double_0_9\<rparr>"
    by (simp add: judging_agent_def)
  then have "\<forall>a. deepseek_assessCompletion judging_agent example_mission empty_result = Inr a \<longrightarrow>
      is_double (a_completionPercentage a)"
    by (simp add: is_double_0_9)
  from completion_threshold[OF this] j
  have "validateCompletion judging_agent example_mission empty_result \<longleftrightarrow>
      9 / 10 \<le> double_0_9" by simp
  moreover have "(9::rat) / 10 \<le> double_0_9" using double_0_9_above by simp
  moreover have "\<not> validateCompletion confluence_agent example_mission empty_result"
    by (simp add: validateCompletion_def confluence_agent_def)
  ultimately show ?thesis using j by simp
qed

section \<open>Facts about the planner\<close>

lemma createId_frame [simp]:
  "db_missions (snd (createId d)) = db_missions d"
  "db_plans (snd (createId d)) = db_plans d"
  "db_tasks (snd (createId d)) = db_tasks d"
  "db_toolUsage (snd (createId d)) = db_toolUsage d"
  "db_clock (snd (createId d)) = db_clock d"
  "fst (createId d) = id_of_nat (db_nextId d)"
  by (simp_all add: createId_def)

lemma find_snoc: "P x \<Longrightarrow> find P (xs @ [x]) \<noteq> None"
  by (induction xs) auto

lemma find_append_Some: "find P xs = Some r \<Longrightarrow> find P (xs @ ys) = Some r"
  by (induction xs) (auto split: if_splits)

lemma mission_status_of_cong:
  "db_missions d' = db_missions d \<Longrightarrow> mission_status_of d' i = mission_status_of d i"
  by (simp add: mission_status_of_def)

text \<open>
  The task rows that the loop inserts for the task descriptions \<open>tds\<close> of a reply when
  the id counter stands at \<open>n\<close>.
\<close>

definition new_task_rows :: "string \<Rightarrow> nat \<Rightarrow> task_data list \<Rightarrow> task list" where
  "new_task_rows planId n tds =
     map (\<lambda>(k, taskData). task_row (id_of_nat k) planId taskData) (enumerate n tds)"

lemma insert_task_ok:
  assumes "plan_status_of d planId \<noteq> None"
  shows "insert_task planId taskData d =
     Inr (task_row (id_of_nat (db_nextId d)) planId taskData,
          d\<lparr>db_nextId := Suc (db_nextId d),
            db_tasks := db_tasks d @ [task_row (id_of_nat (db_nextId d)) planId taskData]\<rparr>)"
proof -
  have "plan_status_of (d\<lparr>db_nextId := Suc (db_nextId d)\<rparr>) planId = plan_status_of d planId"
    by (rule plan_status_of_cong) simp
  with assms show ?thesis by (auto simp add: insert_task_def createId_def Let_def)
qed

lemma insert_task_fails:
  assumes "plan_status_of d planId = None"
  shows "insert_task planId taskData d = Inl foreign_key_error"
proof -
  have "plan_status_of (d\<lparr>db_nextId := Suc (db_nextId d)\<rparr>) planId = plan_status_of d planId"
    by (rule plan_status_of_cong) simp
  with assms show ?thesis by (simp add: insert_task_def createId_def)
qed

lemma insert_tasks_Cons_ok:
  assumes "plan_status_of d planId \<noteq> None"
  shows "insert_tasks planId (taskData # rest) ts d =
     insert_tasks planId rest (ts @ [task_row (id_of_nat (db_nextId d)) planId taskData])
       (d\<lparr>db_nextId := Suc (db_nextId d),
          db_tasks := db_tasks d @ [task_row (id_of_nat (db_nextId d)) planId taskData]\<rparr>)"
  by (simp add: insert_task_ok[OF assms])

lemma insert_tasks_Cons_fails:
  assumes "plan_status_of d planId = None"
  shows "insert_tasks planId (taskData # rest) ts d = (Inl foreign_key_error, d)"
  by (simp add: insert_task_fails[OF assms])

declare insert_tasks.simps(2) [simp del]

lemma insert_tasks_frame [simp]:
  "db_missions (snd (insert_tasks planId tds ts d)) = db_missions d"
  "db_plans (snd (insert_tasks planId tds ts d)) = db_plans d"
  "db_toolUsage (snd (insert_tasks planId tds ts d)) = db_toolUsage d"
  "db_clock (snd (insert_tasks planId tds ts d)) = db_clock d"
proof -
  have "db_missions (snd (insert_tasks planId tds ts d)) = db_missions d \<and>
        db_plans (snd (insert_tasks planId tds ts d)) = db_plans d \<and>
        db_toolUsage (snd (insert_tasks planId tds ts d)) = db_toolUsage d \<and>
        db_clock (snd (insert_tasks planId tds ts d)) = db_clock d"
  proof (induction tds arbitrary: ts d)
    case Nil
    show ?case by simp
  next
    case (Cons td rest)
    show ?case
    proof (cases "plan_status_of d planId = None")
      case True
      then show ?thesis by (simp add: insert_tasks_Cons_fails)
    next
      case False
      let ?row = "task_row (id_of_nat (db_nextId d)) planId td"
      let ?d1 = "d\<lparr>db_nextId := Suc (db_nextId d), db_tasks := db_tasks d @ [?row]\<rparr>"
      from Cons.IH[of "ts @ [?row]" ?d1] show ?thesis
        by (simp add: insert_tasks_Cons_ok[OF False])
    qed
  qed
  then show "db_missions (snd (insert_tasks planId tds ts d)) = db_missions d"
    and "db_plans (snd (insert_tasks planId tds ts d)) = db_plans d"
    and "db_toolUsage (snd (insert_tasks planId tds ts d)) = db_toolUsage d"
    and "db_clock (snd (insert_tasks planId tds ts d)) = db_clock d"
    by simp_all
qed

text \<open>With a row of the plan every insert of the loop succeeds.\<close>

lemma insert_tasks_ok:
  assumes "plan_status_of d planId \<noteq> None"
  shows "fst (insert_tasks planId tds ts d) = Inr (ts @ new_task_rows planId (db_nextId d) tds)"
    and "db_tasks (snd (insert_tasks planId tds ts d)) =
           db_tasks d @ new_task_rows planId (db_nextId d) tds"
proof -
  have "fst (insert_tasks planId tds ts d) =
          Inr (ts @ new_task_rows planId (db_nextId d) tds) \<and>
        db_tasks (snd (insert_tasks planId tds ts d)) =
          db_tasks d @ new_task_rows planId (db_nextId d) tds"
    using assms
  proof (induction tds arbitrary: ts d)
    case Nil
    show ?case by (simp add: new_task_rows_def)
  next
    case (Cons td rest)
    let ?row = "task_row (id_of_nat (db_nextId d)) planId td"
    let ?d1 = "d\<lparr>db_nextId := Suc (db_nextId d), db_tasks := db_tasks d @ [?row]\<rparr>"
    have "plan_status_of ?d1 planId = plan_status_of d planId"
      by (rule plan_status_of_cong) simp
    with Cons.prems have "plan_status_of ?d1 planId \<noteq> None" by simp
    from Cons.IH[OF this, of "ts @ [?row]"] show ?case
      by (simp add: insert_tasks_Cons_ok[OF Cons.prems] new_task_rows_def)
  qed
  then show "fst (insert_tasks planId tds ts d) =
      Inr (ts @ new_task_rows planId (db_nextId d) tds)"
    and "db_tasks (snd (insert_tasks planId tds ts d)) =
      db_tasks d @ new_task_rows planId (db_nextId d) tds"
    by simp_all
qed

lemma new_task_rows_planId:
  "list_all (\<lambda>t. t_planId t = planId) (new_task_rows planId n tds)"
  by (auto simp: new_task_rows_def list_all_iff task_row_def)

text \<open>The plan row that \<open>insert_plan\<close> writes.\<close>

definition new_plan_row :: "string \<Rightarrow> int \<Rightarrow> plan_data \<Rightarrow> db \<Rightarrow> plan_row" where
  "new_plan_row missionId version planData d =
     \<lparr>p_id = id_of_nat (db_nextId d), p_missionId = missionId, p_version = version,
      p_title = pd_title planData, p_description = pd_description planData,
      p_status = PlanDraft, p_estimatedDuration = pd_estimatedDuration planData,
      p_updatedAt = db_clock d\<rparr>"

lemma insert_plan_ok:
  assumes "mission_status_of d missionId \<noteq> None"
  shows "insert_plan missionId version planData d =
     Inr (new_plan_row missionId version planData d,
          d\<lparr>db_nextId := Suc (db_nextId d),
            db_plans := db_plans d @ [new_plan_row missionId version planData d]\<rparr>)"
proof -
  have "mission_status_of (d\<lparr>db_nextId := Suc (db_nextId d)\<rparr>) missionId =
      mission_status_of d missionId"
    by (rule mission_status_of_cong) simp
  with assms show ?thesis
    by (auto simp add: insert_plan_def createId_def new_plan_row_def Let_def)
qed

lemma insert_plan_fails:
  assumes "mission_status_of d missionId = None"
  shows "insert_plan missionId version planData d = Inl foreign_key_error"
proof -
  have "mission_status_of (d\<lparr>db_nextId := Suc (db_nextId d)\<rparr>) missionId =
      mission_status_of d missionId"
    by (rule mission_status_of_cong) simp
  with assms show ?thesis by (simp add: insert_plan_def createId_def)
qed

lemma createPlan_Inl:
  "deepseek_generatePlan ag (CreatePlanFor mission) = Inl err \<Longrightarrow>
     createPlan ag mission ctx d = (Inl err, d)"
  by (simp add: createPlan_def)

text \<open>
  \<^verbatim>\<open>createPlan\<close> for a mission that has its row and a reply that has its tasks: the
  plan row is inserted, then a row for every task of the reply, and the returned plan
  consists of these rows.
\<close>

lemma createPlan_ok:
  assumes g: "deepseek_generatePlan ag (CreatePlanFor mission) = Inr planData"
    and m: "mission_status_of d (m_id mission) \<noteq> None"
    and t: "pd_tasks planData = Some taskDatas"
  shows "fst (createPlan ag mission ctx d) =
     Inr \<lparr>pr_plan = with_tasks (new_plan_row (m_id mission) 1 planData d)
                      (new_task_rows (id_of_nat (db_nextId d)) (Suc (db_nextId d)) taskDatas),
          pr_reasoning = pd_reasoning planData, pr_confidence = pd_confidence planData\<rparr>"
    and "db_plans (snd (createPlan ag mission ctx d)) =
           db_plans d @ [new_plan_row (m_id mission) 1 planData d]"
    and "db_tasks (snd (createPlan ag mission ctx d)) =
           db_tasks d @ new_task_rows (id_of_nat (db_nextId d)) (Suc (db_nextId d)) taskDatas"
proof -
  let ?row = "new_plan_row (m_id mission) 1 planData d"
  let ?d2 = "d\<lparr>db_nextId := Suc (db_nextId d), db_plans := db_plans d @ [?row]\<rparr>"
  have i: "p_id ?row = id_of_nat (db_nextId d)" by (simp add: new_plan_row_def)
  have "find (\<lambda>r. p_id r = id_of_nat (db_nextId d)) (db_plans d @ [?row]) \<noteq> None"
    by (rule find_snoc) (rule i)
  then have p: "plan_status_of ?d2 (id_of_nat (db_nextId d)) \<noteq> None"
    by (simp add: plan_status_of_def)
  note ok = insert_tasks_ok[OF p, of taskDatas "[]"]
  obtain res d3 where r: "insert_tasks (id_of_nat (db_nextId d)) taskDatas [] ?d2 = (res, d3)"
    by force
  with ok have res: "res = Inr (new_task_rows (id_of_nat (db_nextId d)) (Suc (db_nextId d))
      taskDatas)"
    and t3: "db_tasks d3 =
      db_tasks d @ new_task_rows (id_of_nat (db_nextId d)) (Suc (db_nextId d)) taskDatas"
    by simp_all
  from insert_tasks_frame(2)[of "id_of_nat (db_nextId d)" taskDatas "[]" ?d2] r
  have p3: "db_plans d3 = db_plans d @ [?row]" by simp
  have e: "createPlan ag mission ctx d =
      (Inr \<lparr>pr_plan = with_tasks ?row
               (new_task_rows (id_of_nat (db_nextId d)) (Suc (db_nextId d)) taskDatas),
            pr_reasoning = pd_reasoning planData, pr_confidence = pd_confidence planData\<rparr>, d3)"
    by (simp add: createPlan_def g t insert_plan_ok[OF m] i r res)
  show "fst (createPlan ag mission ctx d) =
     Inr \<lparr>pr_plan = with_tasks ?row
                      (new_task_rows (id_of_nat (db_nextId d)) (Suc (db_nextId d)) taskDatas),
          pr_reasoning = pd_reasoning planData, pr_confidence = pd_confidence planData\<rparr>"
    by (simp add: e)
  show "db_plans (snd (createPlan ag mission ctx d)) = db_plans d @ [?row]"
    by (simp add: e p3)
  show "db_tasks (snd (createPlan ag mission ctx d)) =
      db_tasks d @ new_task_rows (id_of_nat (db_nextId d)) (Suc (db_nextId d)) taskDatas"
    by (simp add: e t3)
qed

text \<open>
  The ways \<^verbatim>\<open>createPlan\<close> throws besides an error of the reasoning service: the
  mission has no row, so that nothing is written, or the reply has no tasks, so that the
  plan row stays behind.
\<close>

lemma createPlan_no_mission:
  assumes "deepseek_generatePlan ag (CreatePlanFor mission) = Inr planData"
    "mission_status_of d (m_id mission) = None"
  shows "createPlan ag mission ctx d = (Inl foreign_key_error, d)"
  by (simp add: createPlan_def assms(1) insert_plan_fails[OF assms(2)])

lemma createPlan_no_tasks:
  assumes "deepseek_generatePlan ag (CreatePlanFor mission) = Inr planData"
    "mission_status_of d (m_id mission) \<noteq> None" "pd_tasks planData = None"
  shows "createPlan ag mission ctx d =
     (Inl (not_iterable ''planData.tasks''),
      d\<lparr>db_nextId := Suc (db_nextId d),
        db_plans := db_plans d @ [new_plan_row (m_id mission) 1 planData d]\<rparr>)"
  by (simp add: createPlan_def assms(1,3) insert_plan_ok[OF assms(2)])

lemma createPlan_frame [simp]:
  "db_missions (snd (createPlan ag mission ctx d)) = db_missions d"
proof (cases "deepseek_generatePlan ag (CreatePlanFor mission)")
  case (Inl err)
  then show ?thesis by (simp add: createPlan_Inl)
next
  case (Inr planData)
  show ?thesis
  proof (cases "mission_status_of d (m_id mission) = None")
    case True
    from createPlan_no_mission[OF Inr True] show ?thesis by simp
  next
    case m: False
    show ?thesis
    proof (cases "pd_tasks planData")
      case None
      from createPlan_no_tasks[OF Inr m None] show ?thesis by simp
    next
      case (Some taskDatas)
      let ?row = "new_plan_row (m_id mission) 1 planData d"
      let ?d2 = "d\<lparr>db_nextId := Suc (db_nextId d), db_plans := db_plans d @ [?row]\<rparr>"
      obtain res d3 where r: "insert_tasks (p_id ?row) taskDatas [] ?d2 = (res, d3)" by force
      from insert_tasks_frame(1)[of "p_id ?row" taskDatas "[]" ?d2] r
      have "db_missions d3 = db_missions d" by simp
      then show ?thesis
        by (cases res) (simp_all add: createPlan_def Inr Some insert_plan_ok[OF m] r)
    qed
  qed
qed


section \<open>Facts about the mission orchestrator\<close>

lemma executePlan_frame [simp]:
  "db_missions (snd (executePlan ag plan ctx d)) = db_missions d"
proof (cases "sortTasksByPriorityAndDependencies (p_tasks plan)")
  case (Inl err)
  then show ?thesis by (simp add: executePlan_sort_error)
next
  case (Inr out)
  then show ?thesis by (simp add: executePlan_sorted Let_def)
qed

lemma find_mission_update:
  assumes "\<And>r. m_id (f r) = m_id r"
  shows "find (\<lambda>r. m_id r = i) (map (\<lambda>r. if m_id r = i then f r else r) rows) =
     map_option f (find (\<lambda>r. m_id r = i) rows)"
  using assms by (induction rows) auto

lemma mission_status_of_update:
  assumes "\<And>r. m_id (f r) = m_id r" "\<And>r. m_status (f r) = s"
    "mission_status_of d i \<noteq> None"
  shows "mission_status_of (update_missions_where_id i f d) i = Some s"
proof -
  from assms(3) obtain r where "find (\<lambda>r. m_id r = i) (db_missions d) = Some r"
    by (auto simp: mission_status_of_def)
  with assms(2) show ?thesis
    by (simp add: mission_status_of_def update_missions_where_id_def
        find_mission_update[of f, OF assms(1)])
qed

lemma mission_status_of_set:
  "mission_status_of d i \<noteq> None \<Longrightarrow> mission_status_of (set_mission_status i s d) i = Some s"
  unfolding set_mission_status_def by (rule mission_status_of_update) simp_all

lemma set_mission_status_frame [simp]:
  "db_plans (set_mission_status i s d) = db_plans d"
  "db_tasks (set_mission_status i s d) = db_tasks d"
  "db_toolUsage (set_mission_status i s d) = db_toolUsage d"
  "db_clock (set_mission_status i s d) = db_clock d"
  "db_nextId (set_mission_status i s d) = db_nextId d"
  by (simp_all add: set_mission_status_def update_missions_where_id_def)

text \<open>The context that \<^verbatim>\<open>executeMission\<close> creates for planning.\<close>

definition planning_context :: "mission \<Rightarrow> exec_context" where
  "planning_context mission = \<lparr>c_missionId = m_id mission, c_planId = [], c_taskId = None\<rparr>"

lemma executeMission_trace_error:
  assumes "createPlan ag mission (planning_context mission)
             (set_mission_status (m_id mission) MissionPlanning d) = (Inl err, d2)"
  shows "executeMission_trace ag mission d =
     (\<lparr>er_success = False, er_completedTasks = [], er_failedTasks = [],
       er_reflections = [], er_error = Some (message err)\<rparr>,
      [set_mission_status (m_id mission) MissionPlanning d, d2,
       set_mission_status (m_id mission) MissionFailed d2])"
  using assms
  by (simp add: executeMission_trace_def planning_context_def mission_failed_def Let_def)

lemma executeMission_trace_planned:
  assumes "createPlan ag mission (planning_context mission)
             (set_mission_status (m_id mission) MissionPlanning d) = (Inr planningResult, d2)"
  shows "executeMission_trace ag mission d =
     (let d3 = set_mission_status (m_id mission) MissionExecuting d2;
          r = executePlan ag (pr_plan planningResult)
                ((planning_context mission)\<lparr>c_planId := p_id (pr_plan planningResult)\<rparr>) d3;
          isCompleted = validateCompletion ag mission (fst r)
      in ((fst r)\<lparr>er_success := isCompleted\<rparr>,
          [set_mission_status (m_id mission) MissionPlanning d, d2, d3, snd r,
           update_missions_where_id (m_id mission)
             (\<lambda>row. row\<lparr>m_status := (if isCompleted then MissionCompleted else MissionFailed),
                        m_completedAt := (if isCompleted then Some (db_clock (snd r))
                                          else m_completedAt row)\<rparr>) (snd r)]))"
  using assms
  by (simp add: executeMission_trace_def planning_context_def Let_def split: prod.splits)



text \<open>
  The mission status in the stores of a run: \<^verbatim>\<open>planning\<close> from the first write to
  the end of planning, then \<^verbatim>\<open>failed\<close> when planning threw, and otherwise
  \<^verbatim>\<open>executing\<close> until the end of plan execution and the final status after it.
\<close>

lemma executeMission_trace_status:
  assumes row: "mission_status_of d (m_id mission) \<noteq> None"
  shows "map (\<lambda>s. mission_status_of s (m_id mission)) (snd (executeMission_trace ag mission d)) =
     (case fst (createPlan ag mission (planning_context mission)
                  (set_mission_status (m_id mission) MissionPlanning d)) of
        Inl err \<Rightarrow> [Some MissionPlanning, Some MissionPlanning, Some MissionFailed]
      | Inr planningResult \<Rightarrow>
          [Some MissionPlanning, Some MissionPlanning, Some MissionExecuting,
           Some MissionExecuting,
           Some (if er_success (fst (executeMission_trace ag mission d))
                 then MissionCompleted else MissionFailed)])"
proof -
  let ?i = "m_id mission"
  let ?d1 = "set_mission_status ?i MissionPlanning d"
  from row have s1: "mission_status_of ?d1 ?i = Some MissionPlanning"
    by (rule mission_status_of_set)
  obtain res d2 where c: "createPlan ag mission (planning_context mission) ?d1 = (res, d2)"
    by force
  from createPlan_frame[of ag mission "planning_context mission" ?d1] c
  have "db_missions d2 = db_missions ?d1" by simp
  from mission_status_of_cong[OF this] s1
  have s2: "mission_status_of d2 ?i = Some MissionPlanning" by simp
  then have h2: "mission_status_of d2 ?i \<noteq> None" by simp
  show ?thesis
  proof (cases res)
    case (Inl err)
    with c have e: "createPlan ag mission (planning_context mission) ?d1 = (Inl err, d2)"
      by simp
    from mission_status_of_set[OF h2]
    have "mission_status_of (set_mission_status ?i MissionFailed d2) ?i = Some MissionFailed" .
    with s1 s2 show ?thesis
      unfolding executeMission_trace_error[OF e] by (simp add: e)
  next
    case (Inr planningResult)
    with c have e: "createPlan ag mission (planning_context mission) ?d1 =
        (Inr planningResult, d2)" by simp
    let ?d3 = "set_mission_status ?i MissionExecuting d2"
    let ?r = "executePlan ag (pr_plan planningResult)
                ((planning_context mission)\<lparr>c_planId := p_id (pr_plan planningResult)\<rparr>) ?d3"
    from mission_status_of_set[OF h2]
    have s3: "mission_status_of ?d3 ?i = Some MissionExecuting" .
    have "db_missions (snd ?r) = db_missions ?d3" by simp
    from mission_status_of_cong[OF this] s3
    have s4: "mission_status_of (snd ?r) ?i = Some MissionExecuting" by simp
    then have h4: "mission_status_of (snd ?r) ?i \<noteq> None" by simp
    show ?thesis
      unfolding executeMission_trace_planned[OF e] Let_def
      by (simp add: e s1 s2 s3 s4 mission_status_of_update[OF _ _ h4])
  qed
qed

lemma executeMission_last:
  "executeMission ag mission d =
     (fst (executeMission_trace ag mission d), last (snd (executeMission_trace ag mission d)))"
  by (simp add: executeMission_def split: prod.splits)

lemma executeMission_status:
  assumes "mission_status_of d (m_id mission) \<noteq> None"
  shows "mission_status_of (snd (executeMission ag mission d)) (m_id mission) =
     Some (if er_success (fst (executeMission ag mission d))
           then MissionCompleted else MissionFailed)"
proof -
  let ?t = "snd (executeMission_trace ag mission d)"
  let ?c = "fst (createPlan ag mission (planning_context mission)
                  (set_mission_status (m_id mission) MissionPlanning d))"
  note st = executeMission_trace_status[OF assms, of ag]
  have ne: "?t \<noteq> []" using st by (cases ?c) auto
  have "mission_status_of (last ?t) (m_id mission) =
      last (map (\<lambda>s. mission_status_of s (m_id mission)) ?t)"
    using ne by (simp add: last_map)
  also have "\<dots> = Some (if er_success (fst (executeMission_trace ag mission d))
           then MissionCompleted else MissionFailed)"
  proof (cases ?c)
    case (Inl err)
    obtain d2 where "createPlan ag mission (planning_context mission)
        (set_mission_status (m_id mission) MissionPlanning d) = (Inl err, d2)"
      using Inl by (metis prod.collapse)
    from executeMission_trace_error[OF this] st Inl show ?thesis by simp
  next
    case (Inr planningResult)
    with st show ?thesis by simp
  qed
  finally show ?thesis by (simp add: executeMission_last)
qed


section \<open>Errors during a mission\<close>

text \<open>
  An agent whose planner answers with a plan of one search task, whose search finds
  something, and whose judge is unreachable; and an agent whose planner answers with a
  task that lists the id it is going to get among its dependencies, and whose judge
  declares every mission completed.
\<close>

definition search_plan_data :: plan_data where
  "search_plan_data =
     \<lparr>pd_title = ''Find the runbook'', pd_description = None, pd_estimatedDuration = Some 30,
      pd_tasks = Some [\<lparr>td_title = ''Search'', td_priority = 0,
                        td_toolName = Some ''confluence_search'',
                        td_toolParams = Some (JObj [(''query'', JStr ''runbook'')]),
                        td_dependencies = None\<rparr>],
      pd_reasoning = ''One search suffices'', pd_confidence = 1\<rparr>"

definition planning_agent :: agent where
  "planning_agent =
     confluence_agent\<lparr>deepseek_generatePlan := (\<lambda>req. Inr search_plan_data)\<rparr>"

definition search_task :: task where
  "search_task =
     \<lparr>t_id = ''c0'', t_planId = ''c'', t_title = ''Search'', t_status = TaskPending,
      t_priority = 0, t_toolName = Some ''confluence_search'',
      t_toolParams = Some (JObj [(''query'', JStr ''runbook'')]),
      t_dependencies = None, t_startedAt = None, t_completedAt = None, t_result = None\<rparr>"

definition search_plan :: "task list \<Rightarrow> plan" where
  "search_plan ts =
     \<lparr>p_id = ''c'', p_missionId = ''mission'', p_version = 1,
      p_title = ''Find the runbook'', p_description = None,
      p_status = PlanDraft, p_estimatedDuration = Some 30,
      p_updatedAt = 1000, p_tasks = ts\<rparr>"

definition planned_db :: "task list \<Rightarrow> db" where
  "planned_db ts =
     (set_mission_status (m_id example_mission) MissionPlanning (example_db []))
       \<lparr>db_plans := db_plans (example_db []) @
          [\<lparr>p_id = ''c'', p_missionId = ''mission'', p_version = 1,
            p_title = ''Find the runbook'', p_description = None,
            p_status = PlanDraft, p_estimatedDuration = Some 30, p_updatedAt = 1000\<rparr>],
        db_tasks := ts, db_nextId := 2\<rparr>"



lemma planning_agent_createPlan:
  "createPlan planning_agent example_mission (planning_context example_mission)
     (set_mission_status (m_id example_mission) MissionPlanning (example_db [])) =
   (Inr \<lparr>pr_plan = search_plan [search_task],
          pr_reasoning = ''One search suffices'', pr_confidence = 1\<rparr>,
    planned_db [search_task])"
  by (simp add: createPlan_def planning_agent_def confluence_agent_def search_plan_data_def
      example_mission_def example_db_def planning_context_def set_mission_status_def
      update_missions_where_id_def createId_def id_of_nat_def insert_tasks.simps
      insert_task_def insert_plan_def task_row_def with_tasks_def search_task_def
      search_plan_def planned_db_def mission_status_of_def plan_status_of_def Let_def)





lemma planned_db_rows:
  "task_status_of (set_mission_status i s (planned_db [search_task])) ''c0'' \<noteq> None"
  "mission_status_of (example_db []) (m_id example_mission) \<noteq> None"
  by (simp_all add: task_status_of_def planned_db_def search_task_def mission_status_of_def
      example_db_def example_mission_def)


subsection \<open>Claim C8: what executeMission does with an exception\<close>







section \<open>Pause, resume and cancel\<close>

text \<open>
  The state machine in the words of C6: pending to planning, planning to executing,
  executing to completed or failed; cancel from pending or executing to failed; pause
  from executing to pending.
\<close>

fun claimed_transition :: "mission_status \<Rightarrow> mission_status \<Rightarrow> bool" where
  "claimed_transition MissionPending MissionPlanning = True"
| "claimed_transition MissionPlanning MissionExecuting = True"
| "claimed_transition MissionExecuting MissionCompleted = True"
| "claimed_transition MissionExecuting MissionFailed = True"
| "claimed_transition MissionPending MissionFailed = True"
| "claimed_transition MissionExecuting MissionPending = True"
| "claimed_transition _ _ = False"

text \<open>A store whose mission is completed.\<close>

definition completed_db :: db where
  "completed_db =
     (example_db [])\<lparr>db_missions :=
        [example_mission\<lparr>m_status := MissionCompleted, m_completedAt := Some 900\<rparr>]\<rparr>"

text \<open>
  \<^verbatim>\<open>resumeMission\<close> reads the mission's row and runs \<^verbatim>\<open>executeMission\<close> on it.
\<close>

lemma resumeMission_runs:
  assumes "mission_status_of d i \<noteq> None"
  shows "\<exists>m \<in> set (db_missions d). m_id m = i \<and>
           resumeMission ag i d = snd (executeMission ag m d)"
proof -
  from assms obtain r where r: "find (\<lambda>m. m_id m = i) (db_missions d) = Some r"
    by (auto simp: mission_status_of_def)
  then have "r \<in> set (filter (\<lambda>m. m_id m = i) (db_missions d))"
    by (auto simp: find_Some_iff)
  then obtain m others where
    f: "filter (\<lambda>m. m_id m = i) (db_missions d) = m # others"
    by (cases "filter (\<lambda>m. m_id m = i) (db_missions d)") auto
  then have "m \<in> set (filter (\<lambda>m. m_id m = i) (db_missions d))" by simp
  then have "m \<in> set (db_missions d)" "m_id m = i" by simp_all
  moreover from f have "resumeMission ag i d = snd (executeMission ag m d)"
    by (simp add: resumeMission_def)
  ultimately show ?thesis by blast
qed

lemma resumeMission_terminal:
  assumes "mission_status_of d i \<noteq> None"
  shows "mission_status_of (resumeMission ag i d) i \<in> {Some MissionCompleted, Some MissionFailed}"
proof -
  from resumeMission_runs[OF assms, of ag] obtain m where
    m: "m_id m = i" "resumeMission ag i d = snd (executeMission ag m d)" by blast
  with assms have "mission_status_of d (m_id m) \<noteq> None" by simp
  from executeMission_status[OF this, of ag] m show ?thesis by simp
qed

lemma completed_db_row:
  "mission_status_of completed_db (m_id example_mission) \<noteq> None"
  by (simp add: mission_status_of_def completed_db_def example_mission_def)


subsection \<open>Claim C6: the mission state machine\<close>

text \<open>
  C6 says that a mission's status moves only along pending, planning, executing and
  then completed or failed, that cancel forces \<^verbatim>\<open>failed\<close> only from \<^verbatim>\<open>pending\<close> or
  \<^verbatim>\<open>executing\<close>, that pause returns to \<^verbatim>\<open>pending\<close> only from \<^verbatim>\<open>executing\<close>, and
  that a terminal mission is never moved by pause, resume or cancel. The agent and the
  route write the status without reading it: pausing a completed mission makes it
  \<^verbatim>\<open>pending\<close>, the route's resume makes it \<^verbatim>\<open>executing\<close>, cancel makes it
  \<^verbatim>\<open>failed\<close>, and \<^verbatim>\<open>resumeMission\<close> takes it through \<^verbatim>\<open>planning\<close> again. And when
  planning throws, \<^verbatim>\<open>executeMission\<close> moves the mission from \<^verbatim>\<open>planning\<close> straight
  to \<^verbatim>\<open>failed\<close>.
\<close>

theorem pause_moves_completed_mission:
  "mission_status_of completed_db ''mission'' = Some MissionCompleted \<and>
   mission_status_of (pauseMission ''mission'' completed_db) ''mission'' = Some MissionPending \<and>
   \<not> claimed_transition MissionCompleted MissionPending \<and>
   mission_status_of (snd (PATCH ''mission'' (Some ''resume'') completed_db)) ''mission'' =
     Some MissionExecuting \<and>
   \<not> claimed_transition MissionCompleted MissionExecuting \<and>
   mission_status_of (cancelMission ''mission'' completed_db) ''mission'' = Some MissionFailed \<and>
   \<not> claimed_transition MissionCompleted MissionFailed \<and>
   map (\<lambda>s. mission_status_of s ''mission'')
     (snd (executeMission_trace example_agent example_mission completed_db)) =
     [Some MissionPlanning, Some MissionPlanning, Some MissionFailed] \<and>
   \<not> claimed_transition MissionCompleted MissionPlanning \<and>
   \<not> claimed_transition MissionPlanning MissionFailed"
proof -
  have "createPlan example_agent example_mission (planning_context example_mission)
     (set_mission_status (m_id example_mission) MissionPlanning completed_db) =
     (Inl (Error ''DeepSeek API error: timeout''),
      set_mission_status (m_id example_mission) MissionPlanning completed_db)"
    by (rule createPlan_Inl) (simp add: example_agent_def)
  with executeMission_trace_status[OF completed_db_row, of example_agent]
  have "map (\<lambda>s. mission_status_of s ''mission'')
     (snd (executeMission_trace example_agent example_mission completed_db)) =
     [Some MissionPlanning, Some MissionPlanning, Some MissionFailed]"
    by (simp add: example_mission_def)
  then show ?thesis
    by (simp add: mission_status_of_def completed_db_def example_db_def example_mission_def
        pauseMission_def cancelMission_def PATCH_def set_mission_status_def
        update_missions_where_id_def)
qed


text \<open>
  C6, amended. For a mission that has its row in the store, whatever its status:
  \<^verbatim>\<open>executeMission\<close> writes \<^verbatim>\<open>planning\<close>, and the status is \<^verbatim>\<open>planning\<close> until
  planning has ended; when planning threw, it then writes \<^verbatim>\<open>failed\<close>; otherwise it
  writes \<^verbatim>\<open>executing\<close>, the status is \<^verbatim>\<open>executing\<close> until plan execution has
  ended, and it then writes \<^verbatim>\<open>completed\<close> or \<^verbatim>\<open>failed\<close>, with which it returns.
  \<^verbatim>\<open>pauseMission\<close> and the route's \<^verbatim>\<open>pause\<close> return the mission to \<^verbatim>\<open>pending\<close>,
  \<^verbatim>\<open>cancelMission\<close> and the route's \<^verbatim>\<open>cancel\<close> force it to \<^verbatim>\<open>failed\<close>, and the
  route's \<^verbatim>\<open>resume\<close> sets it to \<^verbatim>\<open>executing\<close>; \<^verbatim>\<open>resumeMission\<close> runs
  \<^verbatim>\<open>executeMission\<close> on the stored mission, and so ends with \<^verbatim>\<open>completed\<close> or
  \<^verbatim>\<open>failed\<close>.
\<close>

theorem mission_status_transitions:
  assumes "mission_status_of d (m_id mission) \<noteq> None"
  shows "map (\<lambda>s. mission_status_of s (m_id mission)) (snd (executeMission_trace ag mission d)) =
           (case fst (createPlan ag mission (planning_context mission)
                        (set_mission_status (m_id mission) MissionPlanning d)) of
              Inl err \<Rightarrow> [Some MissionPlanning, Some MissionPlanning, Some MissionFailed]
            | Inr planningResult \<Rightarrow>
                [Some MissionPlanning, Some MissionPlanning, Some MissionExecuting,
                 Some MissionExecuting,
                 Some (if er_success (fst (executeMission_trace ag mission d))
                       then MissionCompleted else MissionFailed)]) \<and>
         executeMission ag mission d =
           (fst (executeMission_trace ag mission d),
            last (snd (executeMission_trace ag mission d))) \<and>
         mission_status_of (snd (executeMission ag mission d)) (m_id mission) \<in>
           {Some MissionCompleted, Some MissionFailed} \<and>
         mission_status_of (pauseMission (m_id mission) d) (m_id mission) =
           Some MissionPending \<and>
         mission_status_of (cancelMission (m_id mission) d) (m_id mission) =
           Some MissionFailed \<and>
         PATCH (m_id mission) (Some ''pause'') d =
           ((200, True), pauseMission (m_id mission) d) \<and>
         PATCH (m_id mission) (Some ''cancel'') d =
           ((200, True), cancelMission (m_id mission) d) \<and>
         mission_status_of (snd (PATCH (m_id mission) (Some ''resume'') d)) (m_id mission) =
           Some MissionExecuting \<and>
         (\<exists>m \<in> set (db_missions d). m_id m = m_id mission \<and>
            resumeMission ag (m_id mission) d = snd (executeMission ag m d)) \<and>
         mission_status_of (resumeMission ag (m_id mission) d) (m_id mission) \<in>
           {Some MissionCompleted, Some MissionFailed}"
proof -
  note t = executeMission_trace_status[OF assms, of ag]
  note l = executeMission_last[of ag mission d]
  from executeMission_status[OF assms, of ag]
  have s: "mission_status_of (snd (executeMission ag mission d)) (m_id mission) \<in>
           {Some MissionCompleted, Some MissionFailed}" by simp
  have p: "mission_status_of (pauseMission (m_id mission) d) (m_id mission) =
           Some MissionPending"
    and c: "mission_status_of (cancelMission (m_id mission) d) (m_id mission) =
           Some MissionFailed"
    and pp: "PATCH (m_id mission) (Some ''pause'') d =
           ((200, True), pauseMission (m_id mission) d)"
    and pc: "PATCH (m_id mission) (Some ''cancel'') d =
           ((200, True), cancelMission (m_id mission) d)"
    and pr: "mission_status_of (snd (PATCH (m_id mission) (Some ''resume'') d))
           (m_id mission) = Some MissionExecuting"
    using assms
    by (simp_all add: pauseMission_def cancelMission_def PATCH_def mission_status_of_set)
  note r = resumeMission_runs[OF assms, of ag] resumeMission_terminal[OF assms, of ag]
  from t l s p c pp pc pr r show ?thesis by blast
qed


theorem mission_status_transitions_witness:
  "map (\<lambda>s. mission_status_of s ''mission'')
     (snd (executeMission_trace planning_agent example_mission (example_db []))) =
     [Some MissionPlanning, Some MissionPlanning, Some MissionExecuting,
      Some MissionExecuting, Some MissionFailed] \<and>
   mission_status_of (snd (executeMission planning_agent example_mission (example_db [])))
     ''mission'' \<in> {Some MissionCompleted, Some MissionFailed} \<and>
   mission_status_of (pauseMission ''mission'' completed_db) ''mission'' = Some MissionPending \<and>
   mission_status_of (cancelMission ''mission'' (example_db [])) ''mission'' =
     Some MissionFailed \<and>
   mission_status_of (resumeMission example_agent ''mission'' completed_db) ''mission'' \<in>
     {Some MissionCompleted, Some MissionFailed}"
proof -
  note 1 = mission_status_transitions[OF planned_db_rows(2), of planning_agent]
  note 2 = mission_status_transitions[OF completed_db_row, of example_agent]
  have j: "\<not> validateCompletion planning_agent example_mission r" for r
    by (simp add: validateCompletion_def planning_agent_def confluence_agent_def)
  have "\<not> er_success (fst (executeMission_trace planning_agent example_mission (example_db [])))"
    unfolding executeMission_trace_planned[OF planning_agent_createPlan]
    by (simp add: Let_def j)
  with 1 planning_agent_createPlan
  have a: "map (\<lambda>s. mission_status_of s (m_id example_mission))
     (snd (executeMission_trace planning_agent example_mission (example_db []))) =
     [Some MissionPlanning, Some MissionPlanning, Some MissionExecuting,
      Some MissionExecuting, Some MissionFailed]"
    by simp
  from 1 have b: "mission_status_of (snd (executeMission planning_agent example_mission
      (example_db []))) (m_id example_mission) \<in> {Some MissionCompleted, Some MissionFailed}"
    and c: "mission_status_of (cancelMission (m_id example_mission) (example_db []))
      (m_id example_mission) = Some MissionFailed"
    by blast+
  from 2 have d: "mission_status_of (pauseMission (m_id example_mission) completed_db)
      (m_id example_mission) = Some MissionPending"
    and e: "mission_status_of (resumeMission example_agent (m_id example_mission) completed_db)
      (m_id example_mission) \<in> {Some MissionCompleted, Some MissionFailed}"
    by blast+
  from a b c d e show ?thesis by (simp add: example_mission_def)
qed


section \<open>Plan revision\<close>

lemma update_plans_frame [simp]:
  "db_tasks (update_plans_where_id i f d) = db_tasks d"
  "db_missions (update_plans_where_id i f d) = db_missions d"
  "db_toolUsage (update_plans_where_id i f d) = db_toolUsage d"
  "db_clock (update_plans_where_id i f d) = db_clock d"
  "db_nextId (update_plans_where_id i f d) = db_nextId d"
  by (simp_all add: update_plans_where_id_def)

lemma update_plans_plans:
  "db_plans (update_plans_where_id i f d) = map (\<lambda>r. if p_id r = i then f r else r) (db_plans d)"
  by (simp add: update_plans_where_id_def)

lemma delete_tasks_frame [simp]:
  "db_plans (delete_tasks_where_planId i d) = db_plans d"
  "db_missions (delete_tasks_where_planId i d) = db_missions d"
  "db_clock (delete_tasks_where_planId i d) = db_clock d"
  "db_nextId (delete_tasks_where_planId i d) = db_nextId d"
  "db_tasks (delete_tasks_where_planId i d) = filter (\<lambda>t. t_planId t \<noteq> i) (db_tasks d)"
  by (simp_all add: delete_tasks_where_planId_def Let_def)

lemma delete_tasks_usage:
  "db_toolUsage (delete_tasks_where_planId i d) =
     filter (\<lambda>u. case u_taskId u of
                    None \<Rightarrow> True
                  | Some t \<Rightarrow> t \<notin> set (map t_id (filter (\<lambda>t. t_planId t = i) (db_tasks d))))
       (db_toolUsage d)"
  by (simp add: delete_tasks_where_planId_def Let_def)

lemma find_plan_map:
  assumes "\<And>r. p_id (h r) = p_id r"
  shows "find (\<lambda>r. p_id r = i) (map h rows) = map_option h (find (\<lambda>r. p_id r = i) rows)"
  using assms by (induction rows) auto

lemma plan_status_of_map:
  assumes "db_plans d' = map h (db_plans d)"
    "\<And>r. p_id (h r) = p_id r" "\<And>r. p_status (h r) = p_status r"
  shows "plan_status_of d' i = plan_status_of d i"
proof -
  have "find (\<lambda>r. p_id r = i) (db_plans d') =
      map_option h (find (\<lambda>r. p_id r = i) (db_plans d))"
    unfolding assms(1) by (rule find_plan_map) (rule assms(2))
  then show ?thesis
    by (cases "find (\<lambda>r. p_id r = i) (db_plans d)") (simp_all add: plan_status_of_def assms(3))
qed

text \<open>
  The row of the plan after \<^verbatim>\<open>updatePlan\<close>: title, version and time are rewritten,
  description and duration only when the reply has them, and the status is kept.
\<close>

definition revised_row :: "plan \<Rightarrow> plan_data \<Rightarrow> db \<Rightarrow> plan_row \<Rightarrow> plan_row" where
  "revised_row plan updatedData d r =
     r\<lparr>p_title := pd_title updatedData,
       p_description := (case pd_description updatedData of
                           None \<Rightarrow> p_description r
                         | Some v \<Rightarrow> Some v),
       p_estimatedDuration := (case pd_estimatedDuration updatedData of
                                 None \<Rightarrow> p_estimatedDuration r
                               | Some v \<Rightarrow> Some v),
       p_version := p_version plan + 1,
       p_updatedAt := db_clock d\<rparr>"

lemma revised_row_simps [simp]:
  "p_id (revised_row plan updatedData d r) = p_id r"
  "p_status (revised_row plan updatedData d r) = p_status r"
  "p_missionId (revised_row plan updatedData d r) = p_missionId r"
  "p_version (revised_row plan updatedData d r) = p_version plan + 1"
  by (simp_all add: revised_row_def)

lemma updatePlan_ok:
  assumes g: "deepseek_generatePlan ag (UpdatePlanFor plan feedback) = Inr updatedData"
    and t: "pd_tasks updatedData = Some taskDatas"
    and row: "plan_status_of d (p_id plan) \<noteq> None"
  shows "fst (updatePlan ag plan feedback ctx d) =
     Inr \<lparr>pr_plan = plan\<lparr>p_title := pd_title updatedData,
                          p_description := pd_description updatedData,
                          p_estimatedDuration := pd_estimatedDuration updatedData,
                          p_version := p_version plan + 1,
                          p_tasks := new_task_rows (p_id plan) (db_nextId d) taskDatas,
                          p_updatedAt := db_clock d\<rparr>,
          pr_reasoning = pd_reasoning updatedData,
          pr_confidence = pd_confidence updatedData\<rparr>"
    and "db_plans (snd (updatePlan ag plan feedback ctx d)) =
           map (\<lambda>r. if p_id r = p_id plan then revised_row plan updatedData d r else r)
             (db_plans d)"
    and "db_tasks (snd (updatePlan ag plan feedback ctx d)) =
           filter (\<lambda>t. t_planId t \<noteq> p_id plan) (db_tasks d) @
           new_task_rows (p_id plan) (db_nextId d) taskDatas"
    and "db_toolUsage (snd (updatePlan ag plan feedback ctx d)) =
           filter (\<lambda>u. case u_taskId u of
                          None \<Rightarrow> True
                        | Some i \<Rightarrow>
                            i \<notin> set (map t_id (filter (\<lambda>t. t_planId t = p_id plan) (db_tasks d))))
             (db_toolUsage d)"
proof -
  let ?d1 = "update_plans_where_id (p_id plan) (revised_row plan updatedData d) d"
  let ?d2 = "delete_tasks_where_planId (p_id plan) ?d1"
  let ?h = "\<lambda>r. if p_id r = p_id plan then revised_row plan updatedData d r else r"
  have p2: "db_plans ?d2 = map ?h (db_plans d)" by (simp add: update_plans_plans)
  have "plan_status_of ?d2 (p_id plan) = plan_status_of d (p_id plan)"
    by (rule plan_status_of_map[OF p2]) simp_all
  with row have r2: "plan_status_of ?d2 (p_id plan) \<noteq> None" by simp
  note ok = insert_tasks_ok[OF r2, of taskDatas "[]"]
  obtain res d3 where r: "insert_tasks (p_id plan) taskDatas [] ?d2 = (res, d3)" by force
  with ok have res: "res = Inr (new_task_rows (p_id plan) (db_nextId d) taskDatas)"
    and t3: "db_tasks d3 = filter (\<lambda>t. t_planId t \<noteq> p_id plan) (db_tasks d) @
        new_task_rows (p_id plan) (db_nextId d) taskDatas"
    by simp_all
  from insert_tasks_frame[of "p_id plan" taskDatas "[]" ?d2] r
  have f3: "db_plans d3 = map ?h (db_plans d)" "db_toolUsage d3 = db_toolUsage ?d2"
    "db_clock d3 = db_clock d"
    by (simp_all add: update_plans_plans)
  have d1: "update_plans_where_id (p_id plan)
      (\<lambda>r. r\<lparr>p_title := pd_title updatedData,
              p_description := (case pd_description updatedData of
                                  None \<Rightarrow> p_description r
                                | Some v \<Rightarrow> Some v),
              p_estimatedDuration := (case pd_estimatedDuration updatedData of
                                        None \<Rightarrow> p_estimatedDuration r
                                      | Some v \<Rightarrow> Some v),
              p_version := p_version plan + 1,
              p_updatedAt := db_clock d\<rparr>) d = ?d1"
    by (simp add: revised_row_def[abs_def])
  have e: "updatePlan ag plan feedback ctx d =
     (Inr \<lparr>pr_plan = plan\<lparr>p_title := pd_title updatedData,
                          p_description := pd_description updatedData,
                          p_estimatedDuration := pd_estimatedDuration updatedData,
                          p_version := p_version plan + 1,
                          p_tasks := new_task_rows (p_id plan) (db_nextId d) taskDatas,
                          p_updatedAt := db_clock d\<rparr>,
          pr_reasoning = pd_reasoning updatedData,
          pr_confidence = pd_confidence updatedData\<rparr>, d3)"
    unfolding updatePlan_def g sum.case d1 Let_def t option.case r res prod.case
    by (simp add: f3(3))
  show "fst (updatePlan ag plan feedback ctx d) =
     Inr \<lparr>pr_plan = plan\<lparr>p_title := pd_title updatedData,
                          p_description := pd_description updatedData,
                          p_estimatedDuration := pd_estimatedDuration updatedData,
                          p_version := p_version plan + 1,
                          p_tasks := new_task_rows (p_id plan) (db_nextId d) taskDatas,
                          p_updatedAt := db_clock d\<rparr>,
          pr_reasoning = pd_reasoning updatedData,
          pr_confidence = pd_confidence updatedData\<rparr>"
    by (simp add: e)
  show "db_plans (snd (updatePlan ag plan feedback ctx d)) = map ?h (db_plans d)"
    by (simp add: e f3(1))
  show "db_tasks (snd (updatePlan ag plan feedback ctx d)) =
      filter (\<lambda>t. t_planId t \<noteq> p_id plan) (db_tasks d) @
      new_task_rows (p_id plan) (db_nextId d) taskDatas"
    by (simp add: e t3)
  show "db_toolUsage (snd (updatePlan ag plan feedback ctx d)) =
      filter (\<lambda>u. case u_taskId u of
                     None \<Rightarrow> True
                   | Some i \<Rightarrow>
                       i \<notin> set (map t_id (filter (\<lambda>t. t_planId t = p_id plan) (db_tasks d))))
        (db_toolUsage d)"
    by (simp add: e f3(2) delete_tasks_usage cong: option.case_cong)
qed

text \<open>
  Without a row of the plan the first insert of the loop throws; without a row of the
  mission \<^verbatim>\<open>adjustStrategy\<close> catches the error of its insert and returns the plan it
  was given.
\<close>

lemma updatePlan_no_row:
  assumes "deepseek_generatePlan ag (UpdatePlanFor plan feedback) = Inr updatedData"
    "pd_tasks updatedData = Some (taskData # rest)" "plan_status_of d (p_id plan) = None"
  shows "fst (updatePlan ag plan feedback ctx d) = Inl foreign_key_error"
proof -
  let ?d1 = "update_plans_where_id (p_id plan) (revised_row plan updatedData d) d"
  let ?d2 = "delete_tasks_where_planId (p_id plan) ?d1"
  let ?h = "\<lambda>r. if p_id r = p_id plan then revised_row plan updatedData d r else r"
  have p2: "db_plans ?d2 = map ?h (db_plans d)" by (simp add: update_plans_plans)
  have "plan_status_of ?d2 (p_id plan) = plan_status_of d (p_id plan)"
    by (rule plan_status_of_map[OF p2]) simp_all
  with assms(3) have "plan_status_of ?d2 (p_id plan) = None" by simp
  from insert_tasks_Cons_fails[OF this]
  have "insert_tasks (p_id plan) (taskData # rest) [] ?d2 = (Inl foreign_key_error, ?d2)" .
  then show ?thesis
    by (simp add: updatePlan_def assms(1,2) Let_def revised_row_def[abs_def])
qed

lemma adjustStrategy_no_mission:
  assumes "mission_status_of d (m_id mission) = None"
  shows "adjustStrategy ag mission plan ctx d = (plan, d)"
  by (simp add: adjustStrategy_def Let_def insert_plan_fails[OF assms] split: sum.splits)

text \<open>
  What \<^verbatim>\<open>adjustStrategy\<close> does to a plan row when it marks the plan \<open>i\<close> superseded.
\<close>

definition supersede :: "string \<Rightarrow> plan_row \<Rightarrow> plan_row" where
  "supersede i r = (if p_id r = i then r\<lparr>p_status := PlanSuperseded\<rparr> else r)"

lemma adjustStrategy_revision:
  assumes lo: "trackProgress mission d < 1 / 2"
    and g: "deepseek_generatePlan ag (AdjustPlanFor mission plan (trackProgress mission d)) =
              Inr adjustmentPlan"
    and m: "mission_status_of d (m_id mission) \<noteq> None"
  shows "fst (adjustStrategy ag mission plan ctx d) =
           with_tasks (new_plan_row (m_id mission) (p_version plan + 1) adjustmentPlan d) []"
    and "db_plans (snd (adjustStrategy ag mission plan ctx d)) =
           map (supersede (p_id plan))
             (db_plans d @ [new_plan_row (m_id mission) (p_version plan + 1) adjustmentPlan d])"
    and "db_tasks (snd (adjustStrategy ag mission plan ctx d)) = db_tasks d"
    and "db_toolUsage (snd (adjustStrategy ag mission plan ctx d)) = db_toolUsage d"
proof -
  let ?new = "new_plan_row (m_id mission) (p_version plan + 1) adjustmentPlan d"
  have e: "adjustStrategy ag mission plan ctx d =
      (with_tasks ?new [],
       set_plan_status (p_id plan) PlanSuperseded
         (d\<lparr>db_nextId := Suc (db_nextId d), db_plans := db_plans d @ [?new]\<rparr>))"
    using lo g by (simp add: adjustStrategy_def Let_def insert_plan_ok[OF m])
  show "fst (adjustStrategy ag mission plan ctx d) = with_tasks ?new []"
    by (simp add: e)
  show "db_plans (snd (adjustStrategy ag mission plan ctx d)) =
      map (supersede (p_id plan)) (db_plans d @ [?new])"
    unfolding e by (simp add: set_plan_status_plans supersede_def cong: if_cong)
  show "db_tasks (snd (adjustStrategy ag mission plan ctx d)) = db_tasks d"
    by (simp add: e)
  show "db_toolUsage (snd (adjustStrategy ag mission plan ctx d)) = db_toolUsage d"
    by (simp add: e)
qed

lemma adjustStrategy_supersedes:
  assumes "db_plans d' = map (supersede i) (db_plans d @ [newRow])"
    "plan_status_of d i \<noteq> None"
  shows "plan_status_of d' i = Some PlanSuperseded"
proof -
  from assms(2) obtain r where r: "find (\<lambda>r. p_id r = i) (db_plans d) = Some r"
    by (auto simp: plan_status_of_def)
  have m: "find (\<lambda>r. p_id r = i) (map (supersede i) rows) =
      map_option (\<lambda>r. r\<lparr>p_status := PlanSuperseded\<rparr>) (find (\<lambda>r. p_id r = i) rows)" for rows
    by (induction rows) (auto simp: supersede_def)
  from find_append_Some[OF r]
  have a: "find (\<lambda>r. p_id r = i) (db_plans d @ [newRow]) = Some r" .
  have "find (\<lambda>r. p_id r = i) (db_plans d') = Some (r\<lparr>p_status := PlanSuperseded\<rparr>)"
    unfolding assms(1) m a by simp
  then show ?thesis by (simp add: plan_status_of_def)
qed


text \<open>
  A store with the active plan \<open>plan\<close> (version 1), its four tasks, and a tool usage
  row for the task \<open>d\<close>.
\<close>

definition revision_db :: db where
  "revision_db =
     (set_plan_status ''plan'' PlanActive (example_db diamond_tasks))
       \<lparr>db_toolUsage :=
          [\<lparr>u_id = ''u'', u_taskId = Some ''d'', u_toolName = ''confluence_search'',
            u_parameters = JObj [], u_result = None, u_success = True, u_duration = 25,
            u_errorMessage = None, u_timestamp = 900\<rparr>]\<rparr>"

lemma revision_db_progress: "trackProgress example_mission revision_db = 0"
  by (simp add: trackProgress_def revision_db_def example_db_def example_mission_def
      set_plan_status_def update_plans_where_id_def diamond_tasks_def example_task_def
      Let_def)

lemma revision_db_rows:
  "plan_status_of revision_db (p_id (example_plan diamond_tasks)) \<noteq> None"
  "mission_status_of revision_db (m_id example_mission) \<noteq> None"
  by (simp_all add: plan_status_of_def mission_status_of_def revision_db_def example_db_def
      example_plan_def example_mission_def set_plan_status_def update_plans_where_id_def)

lemma map_enumerate_snd:
  "map (\<lambda>(k, x). f x) (enumerate n xs) = map f xs"
  by (induction xs arbitrary: n) simp_all

lemma new_task_rows_data:
  "map (\<lambda>t. (t_title t, t_priority t, t_toolName t, t_toolParams t, t_dependencies t,
             t_status t, t_planId t)) (new_task_rows planId n tds) =
   map (\<lambda>td. (td_title td, td_priority td, td_toolName td, td_toolParams td,
              td_dependencies td, TaskPending, planId)) tds"
proof -
  have "map (\<lambda>t. (t_title t, t_priority t, t_toolName t, t_toolParams t, t_dependencies t,
             t_status t, t_planId t)) (new_task_rows planId n tds) =
      map (\<lambda>(k, td). (td_title td, td_priority td, td_toolName td, td_toolParams td,
              td_dependencies td, TaskPending, planId)) (enumerate n tds)"
    by (simp add: new_task_rows_def task_row_def split_def o_def)
  then show ?thesis by (simp only: map_enumerate_snd)
qed

lemma planning_agent_update:
  "deepseek_generatePlan planning_agent
     (UpdatePlanFor (example_plan diamond_tasks) ''More detail'') = Inr search_plan_data"
  "pd_tasks search_plan_data =
     Some [\<lparr>td_title = ''Search'', td_priority = 0,
            td_toolName = Some ''confluence_search'',
            td_toolParams = Some (JObj [(''query'', JStr ''runbook'')]),
            td_dependencies = None\<rparr>]"
  "trackProgress example_mission revision_db < 1 / 2 \<and>
   deepseek_generatePlan planning_agent
     (AdjustPlanFor example_mission (example_plan diamond_tasks)
        (trackProgress example_mission revision_db)) = Inr search_plan_data"
  by (simp_all add: planning_agent_def search_plan_data_def revision_db_progress)


subsection \<open>Claim C5: versions of a revised plan\<close>

text \<open>
  C5 says that every plan revision gives the revised plan the prior version number plus
  one, marks the prior version \<^verbatim>\<open>superseded\<close> together with the creation of the new
  one, and retains older versions and their tasks, never deleting or overwriting them.
  \<^verbatim>\<open>updatePlan\<close> does not: it rewrites the plan's row under its id, leaves its status
  as it is, deletes the plan's task rows and inserts those of the reply. Below, the
  store holds the active plan in version 1 with four tasks and a tool usage row of one
  of them; after \<^verbatim>\<open>updatePlan\<close> there is still one plan row, of version 2 and still
  \<^verbatim>\<open>active\<close>, the only task row is the new one, and the tool usage row is gone.
\<close>

theorem updatePlan_overwrites_in_place:
  "map (\<lambda>r. (p_id r, p_version r, p_status r)) (db_plans revision_db) =
     [(''plan'', 1, PlanActive)] \<and>
   map t_id (db_tasks revision_db) = [''a'', ''b'', ''c'', ''d''] \<and>
   map u_taskId (db_toolUsage revision_db) = [Some ''d''] \<and>
   map (\<lambda>r. (p_id r, p_version r, p_status r))
     (db_plans (snd (updatePlan planning_agent (example_plan diamond_tasks) ''More detail''
        example_context revision_db))) = [(''plan'', 2, PlanActive)] \<and>
   map t_title (db_tasks (snd (updatePlan planning_agent (example_plan diamond_tasks)
        ''More detail'' example_context revision_db))) = [''Search''] \<and>
   db_toolUsage (snd (updatePlan planning_agent (example_plan diamond_tasks)
        ''More detail'' example_context revision_db)) = []"
proof -
  note u = updatePlan_ok[OF planning_agent_update(1,2) revision_db_rows(1), of example_context]
  show ?thesis
    unfolding u
    by (simp add: revision_db_def example_db_def example_plan_def diamond_tasks_def
        example_task_def set_plan_status_def update_plans_where_id_def
        new_task_rows_def task_row_def revised_row_def)
qed


text \<open>
  C5, amended. Both revision operations give the revised plan the version number of the
  plan they are given plus exactly 1. \<^verbatim>\<open>adjustStrategy\<close>, when it revises (the mission
  has its row, progress is below one half and the planning service replies), appends
  the new version as a new draft row of the mission, sets the status of the prior plan
  to \<^verbatim>\<open>superseded\<close> in the same call, and changes no other plan row, no task row and
  no tool usage row. \<^verbatim>\<open>updatePlan\<close>, for a plan that has its row and a reply that has
  its tasks, adds no plan row: it rewrites the row of the plan in place (title, version
  and update time, and description and estimated duration when the reply has them) and
  leaves its status as it is; it deletes the task rows of that plan, and with them the
  tool usage rows that refer to them, and inserts one \<^verbatim>\<open>pending\<close> task row for each
  task of the reply, with the title, priority, tool name, tool parameters and
  dependencies of the reply; these rows are the tasks of the returned plan, and the task
  rows of other plans are kept.
\<close>

theorem plan_revision:
  assumes rowP: "plan_status_of d (p_id plan) \<noteq> None"
    and rowM: "mission_status_of d (m_id mission) \<noteq> None"
  shows "(\<forall>updatedData taskDatas.
      deepseek_generatePlan ag (UpdatePlanFor plan feedback) = Inr updatedData \<and>
      pd_tasks updatedData = Some taskDatas \<longrightarrow>
      (\<exists>r. fst (updatePlan ag plan feedback ctx d) = Inr r \<and>
         p_id (pr_plan r) = p_id plan \<and>
         p_version (pr_plan r) = p_version plan + 1 \<and>
         p_tasks (pr_plan r) = new_task_rows (p_id plan) (db_nextId d) taskDatas \<and>
         map (\<lambda>t. (t_title t, t_priority t, t_toolName t, t_toolParams t, t_dependencies t,
                    t_status t, t_planId t)) (p_tasks (pr_plan r)) =
           map (\<lambda>td. (td_title td, td_priority td, td_toolName td, td_toolParams td,
                      td_dependencies td, TaskPending, p_id plan)) taskDatas \<and>
         db_plans (snd (updatePlan ag plan feedback ctx d)) =
           map (\<lambda>row. if p_id row = p_id plan then revised_row plan updatedData d row else row)
             (db_plans d) \<and>
         map p_id (db_plans (snd (updatePlan ag plan feedback ctx d))) = map p_id (db_plans d) \<and>
         map p_status (db_plans (snd (updatePlan ag plan feedback ctx d))) =
           map p_status (db_plans d) \<and>
         plan_status_of (snd (updatePlan ag plan feedback ctx d)) (p_id plan) =
           plan_status_of d (p_id plan) \<and>
         list_all (\<lambda>row. p_id row \<noteq> p_id plan \<or> p_version row = p_version plan + 1)
           (db_plans (snd (updatePlan ag plan feedback ctx d))) \<and>
         db_tasks (snd (updatePlan ag plan feedback ctx d)) =
           filter (\<lambda>t. t_planId t \<noteq> p_id plan) (db_tasks d) @ p_tasks (pr_plan r) \<and>
         db_toolUsage (snd (updatePlan ag plan feedback ctx d)) =
           filter (\<lambda>u. case u_taskId u of
                          None \<Rightarrow> True
                        | Some i \<Rightarrow>
                            i \<notin> set (map t_id
                                       (filter (\<lambda>t. t_planId t = p_id plan) (db_tasks d))))
             (db_toolUsage d))) \<and>
   (\<forall>adjustmentPlan.
      trackProgress mission d < 1 / 2 \<and>
      deepseek_generatePlan ag (AdjustPlanFor mission plan (trackProgress mission d)) =
        Inr adjustmentPlan \<longrightarrow>
      (\<exists>newRow. fst (adjustStrategy ag mission plan ctx d) = with_tasks newRow [] \<and>
         p_version (fst (adjustStrategy ag mission plan ctx d)) = p_version plan + 1 \<and>
         p_version newRow = p_version plan + 1 \<and>
         p_missionId newRow = m_id mission \<and>
         p_status newRow = PlanDraft \<and>
         db_plans (snd (adjustStrategy ag mission plan ctx d)) =
           map (supersede (p_id plan)) (db_plans d @ [newRow]) \<and>
         plan_status_of (snd (adjustStrategy ag mission plan ctx d)) (p_id plan) =
           Some PlanSuperseded \<and>
         db_tasks (snd (adjustStrategy ag mission plan ctx d)) = db_tasks d \<and>
         db_toolUsage (snd (adjustStrategy ag mission plan ctx d)) = db_toolUsage d))"
proof (intro conjI allI impI)
  fix updatedData taskDatas
  assume a: "deepseek_generatePlan ag (UpdatePlanFor plan feedback) = Inr updatedData \<and>
      pd_tasks updatedData = Some taskDatas"
  then have g: "deepseek_generatePlan ag (UpdatePlanFor plan feedback) = Inr updatedData"
    and t: "pd_tasks updatedData = Some taskDatas" by simp_all
  note u = updatePlan_ok[OF g t rowP, of ctx]
  let ?d' = "snd (updatePlan ag plan feedback ctx d)"
  let ?new = "new_task_rows (p_id plan) (db_nextId d) taskDatas"
  let ?h = "\<lambda>row. if p_id row = p_id plan then revised_row plan updatedData d row else row"
  let ?r = "\<lparr>pr_plan = plan\<lparr>p_title := pd_title updatedData,
                          p_description := pd_description updatedData,
                          p_estimatedDuration := pd_estimatedDuration updatedData,
                          p_version := p_version plan + 1,
                          p_tasks := ?new,
                          p_updatedAt := db_clock d\<rparr>,
          pr_reasoning = pd_reasoning updatedData,
          pr_confidence = pd_confidence updatedData\<rparr>"
  have 1: "fst (updatePlan ag plan feedback ctx d) = Inr ?r" by (rule u(1))
  have 2: "p_id (pr_plan ?r) = p_id plan" "p_version (pr_plan ?r) = p_version plan + 1"
    "p_tasks (pr_plan ?r) = ?new" by simp_all
  have 3: "map (\<lambda>t. (t_title t, t_priority t, t_toolName t, t_toolParams t, t_dependencies t,
                    t_status t, t_planId t)) (p_tasks (pr_plan ?r)) =
           map (\<lambda>td. (td_title td, td_priority td, td_toolName td, td_toolParams td,
                      td_dependencies td, TaskPending, p_id plan)) taskDatas"
    unfolding 2(3) by (rule new_task_rows_data)
  have 4: "db_plans ?d' = map ?h (db_plans d)" by (rule u(2))
  have 5: "map p_id (db_plans ?d') = map p_id (db_plans d)"
    "map p_status (db_plans ?d') = map p_status (db_plans d)"
    unfolding 4 by (simp_all add: o_def cong: map_cong)
  have 6: "plan_status_of ?d' (p_id plan) = plan_status_of d (p_id plan)"
    by (rule plan_status_of_map[OF 4]) simp_all
  have 7: "list_all (\<lambda>row. p_id row \<noteq> p_id plan \<or> p_version row = p_version plan + 1)
      (db_plans ?d')"
    unfolding 4 list_all_iff by auto
  have 8: "db_tasks ?d' = filter (\<lambda>t. t_planId t \<noteq> p_id plan) (db_tasks d) @
      p_tasks (pr_plan ?r)"
    unfolding 2(3) by (rule u(3))
  note 9 = u(4)
  from 1 2 3 4 5 6 7 8 9
  show "\<exists>r. fst (updatePlan ag plan feedback ctx d) = Inr r \<and>
         p_id (pr_plan r) = p_id plan \<and>
         p_version (pr_plan r) = p_version plan + 1 \<and>
         p_tasks (pr_plan r) = new_task_rows (p_id plan) (db_nextId d) taskDatas \<and>
         map (\<lambda>t. (t_title t, t_priority t, t_toolName t, t_toolParams t, t_dependencies t,
                    t_status t, t_planId t)) (p_tasks (pr_plan r)) =
           map (\<lambda>td. (td_title td, td_priority td, td_toolName td, td_toolParams td,
                      td_dependencies td, TaskPending, p_id plan)) taskDatas \<and>
         db_plans (snd (updatePlan ag plan feedback ctx d)) =
           map (\<lambda>row. if p_id row = p_id plan then revised_row plan updatedData d row else row)
             (db_plans d) \<and>
         map p_id (db_plans (snd (updatePlan ag plan feedback ctx d))) = map p_id (db_plans d) \<and>
         map p_status (db_plans (snd (updatePlan ag plan feedback ctx d))) =
           map p_status (db_plans d) \<and>
         plan_status_of (snd (updatePlan ag plan feedback ctx d)) (p_id plan) =
           plan_status_of d (p_id plan) \<and>
         list_all (\<lambda>row. p_id row \<noteq> p_id plan \<or> p_version row = p_version plan + 1)
           (db_plans (snd (updatePlan ag plan feedback ctx d))) \<and>
         db_tasks (snd (updatePlan ag plan feedback ctx d)) =
           filter (\<lambda>t. t_planId t \<noteq> p_id plan) (db_tasks d) @ p_tasks (pr_plan r) \<and>
         db_toolUsage (snd (updatePlan ag plan feedback ctx d)) =
           filter (\<lambda>u. case u_taskId u of
                          None \<Rightarrow> True
                        | Some i \<Rightarrow>
                            i \<notin> set (map t_id
                                       (filter (\<lambda>t. t_planId t = p_id plan) (db_tasks d))))
             (db_toolUsage d)"
    by (intro exI[of _ ?r] conjI)
next
  fix adjustmentPlan
  assume a: "trackProgress mission d < 1 / 2 \<and>
      deepseek_generatePlan ag (AdjustPlanFor mission plan (trackProgress mission d)) =
        Inr adjustmentPlan"
  then have lo: "trackProgress mission d < 1 / 2"
    and g: "deepseek_generatePlan ag (AdjustPlanFor mission plan (trackProgress mission d)) =
        Inr adjustmentPlan" by simp_all
  let ?new = "new_plan_row (m_id mission) (p_version plan + 1) adjustmentPlan d"
  note n = adjustStrategy_revision[OF lo g rowM, of ctx]
  have v: "p_version (fst (adjustStrategy ag mission plan ctx d)) = p_version plan + 1"
    "p_version ?new = p_version plan + 1" "p_missionId ?new = m_id mission"
    "p_status ?new = PlanDraft"
    unfolding n(1) by (simp_all add: with_tasks_def new_plan_row_def)
  note s = adjustStrategy_supersedes[OF n(2) rowP]
  from n v s
  show "\<exists>newRow. fst (adjustStrategy ag mission plan ctx d) = with_tasks newRow [] \<and>
         p_version (fst (adjustStrategy ag mission plan ctx d)) = p_version plan + 1 \<and>
         p_version newRow = p_version plan + 1 \<and>
         p_missionId newRow = m_id mission \<and>
         p_status newRow = PlanDraft \<and>
         db_plans (snd (adjustStrategy ag mission plan ctx d)) =
           map (supersede (p_id plan)) (db_plans d @ [newRow]) \<and>
         plan_status_of (snd (adjustStrategy ag mission plan ctx d)) (p_id plan) =
           Some PlanSuperseded \<and>
         db_tasks (snd (adjustStrategy ag mission plan ctx d)) = db_tasks d \<and>
         db_toolUsage (snd (adjustStrategy ag mission plan ctx d)) = db_toolUsage d"
    by (intro exI[of _ ?new] conjI)
qed


theorem plan_revision_witness:
  "p_version (fst (adjustStrategy planning_agent example_mission (example_plan diamond_tasks)
      example_context revision_db)) = 2 \<and>
   plan_status_of (snd (adjustStrategy planning_agent example_mission
      (example_plan diamond_tasks) example_context revision_db)) ''plan'' =
     Some PlanSuperseded \<and>
   length (db_plans (snd (adjustStrategy planning_agent example_mission
      (example_plan diamond_tasks) example_context revision_db))) = 2 \<and>
   db_tasks (snd (adjustStrategy planning_agent example_mission (example_plan diamond_tasks)
      example_context revision_db)) = db_tasks revision_db \<and>
   (\<exists>r. fst (updatePlan planning_agent (example_plan diamond_tasks) ''More detail''
          example_context revision_db) = Inr r \<and>
        p_version (pr_plan r) = 2 \<and>
        map t_title (p_tasks (pr_plan r)) = [''Search'']) \<and>
   plan_status_of (snd (updatePlan planning_agent (example_plan diamond_tasks) ''More detail''
          example_context revision_db)) ''plan'' = Some PlanActive \<and>
   map t_planId (db_tasks (snd (updatePlan planning_agent (example_plan diamond_tasks)
          ''More detail'' example_context revision_db))) = [''plan'']"
proof -
  note t = plan_revision[OF revision_db_rows, of planning_agent "''More detail''"
      example_context]
  have v: "p_version (example_plan diamond_tasks) + 1 = 2"
    and i: "p_id (example_plan diamond_tasks) = ''plan''"
    and l: "length (db_plans revision_db) = 1"
    and st: "plan_status_of revision_db ''plan'' = Some PlanActive"
    and ft: "filter (\<lambda>t. t_planId t \<noteq> ''plan'') (db_tasks revision_db) = []"
    by (simp_all add: example_plan_def revision_db_def example_db_def set_plan_status_def
        update_plans_where_id_def plan_status_of_def diamond_tasks_def example_task_def)
  let ?u = "updatePlan planning_agent (example_plan diamond_tasks) ''More detail''
      example_context revision_db"
  from t planning_agent_update(1,2) obtain r where
    r: "fst ?u = Inr r"
    "p_version (pr_plan r) = p_version (example_plan diamond_tasks) + 1"
    "p_tasks (pr_plan r) = new_task_rows (p_id (example_plan diamond_tasks))
        (db_nextId revision_db)
        [\<lparr>td_title = ''Search'', td_priority = 0,
            td_toolName = Some ''confluence_search'',
            td_toolParams = Some (JObj [(''query'', JStr ''runbook'')]),
            td_dependencies = None\<rparr>]"
    "plan_status_of (snd ?u) (p_id (example_plan diamond_tasks)) =
       plan_status_of revision_db (p_id (example_plan diamond_tasks))"
    "db_tasks (snd ?u) =
       filter (\<lambda>t. t_planId t \<noteq> p_id (example_plan diamond_tasks)) (db_tasks revision_db) @
       p_tasks (pr_plan r)"
    by blast
  from r(3) have tt: "map t_title (p_tasks (pr_plan r)) = [''Search'']"
    "map t_planId (p_tasks (pr_plan r)) = [''plan'']"
    by (simp_all add: new_task_rows_def task_row_def i)
  from r(1,2) v tt(1) have u: "\<exists>r. fst ?u = Inr r \<and> p_version (pr_plan r) = 2 \<and>
      map t_title (p_tasks (pr_plan r)) = [''Search'']"
    by simp
  from r(4) i st have us: "plan_status_of (snd ?u) ''plan'' = Some PlanActive" by simp
  from r(5) i ft tt(2) have ut: "map t_planId (db_tasks (snd ?u)) = [''plan'']" by simp
  let ?a = "adjustStrategy planning_agent example_mission (example_plan diamond_tasks)
      example_context revision_db"
  from t planning_agent_update(3) obtain newRow where
    "p_version (fst ?a) = p_version (example_plan diamond_tasks) + 1"
    "db_plans (snd ?a) =
       map (supersede (p_id (example_plan diamond_tasks))) (db_plans revision_db @ [newRow])"
    "db_tasks (snd ?a) = db_tasks revision_db"
    "plan_status_of (snd ?a) (p_id (example_plan diamond_tasks)) = Some PlanSuperseded"
    by blast
  with v i l u us ut show ?thesis by simp
qed

end
